(* ===== verification/Prelude.thy ===== *)
theory Prelude
  imports Main "HOL-Library.Word"
begin

text \<open>
  Shared vocabulary of the development: bytes, the ways a C run can go wrong, memory writes,
  null-padded character arrays, positional numerals and the lemma collections the component
  theories use.
\<close>

unbundle bit_operations_syntax

section \<open>Bytes and failures\<close>

type_synonym byte = "8 word"

text \<open>
  A C function that can leave the defined behaviour of the language, fail an assertion (the
  build keeps \<open>assert\<close> enabled, \<open>-DNDEBUG\<close> is commented out in the Makefile) or end the
  process yields \<open>Inl\<close> of one of these; a normal return is \<open>Inr\<close>.
\<close>

datatype fault =
    Assert_Failed       \<comment> \<open>\<open>assert\<close> aborts the process\<close>
  | Out_Of_Bounds_Write \<comment> \<open>a store outside the object\<close>
  | Out_Of_Bounds_Read  \<comment> \<open>a load outside the object\<close>
  | Union_Misread       \<comment> \<open>reading a union member other than the one stored\<close>
  | Exited              \<comment> \<open>\<open>EXITF\<close>, \<open>EXITFX\<close>: the process exits\<close>
  | Aborted             \<comment> \<open>\<open>ABORTF\<close>, \<open>ABORTFX\<close>: the process aborts\<close>

type_synonym 'a outcome = "fault + 'a"

definition rbind :: "'a outcome \<Rightarrow> ('a \<Rightarrow> 'b outcome) \<Rightarrow> 'b outcome" where
  "rbind x f = (case x of Inl e \<Rightarrow> Inl e | Inr v \<Rightarrow> f v)"

definition c_assert :: "bool \<Rightarrow> 'a outcome \<Rightarrow> 'a outcome" where
  "c_assert P k = (if P then k else Inl Assert_Failed)"

lemma rbind_simps [simp]: "rbind (Inl e) f = Inl e" "rbind (Inr v) f = f v"
  by (simp_all add: rbind_def)

lemma rbind_eq_Inr: "rbind x f = Inr y \<longleftrightarrow> (\<exists>v. x = Inr v \<and> f v = Inr y)"
  by (cases x) auto

lemma rbind_Inr_right [simp]: "rbind x Inr = x"
  by (cases x) auto

lemma rbind_assoc: "rbind (rbind x f) g = rbind x (\<lambda>v. rbind (f v) g)"
  by (cases x) auto

lemma c_assert_True [simp]: "c_assert True k = k"
  by (simp add: c_assert_def)

lemma c_assert_False [simp]: "c_assert False k = Inl Assert_Failed"
  by (simp add: c_assert_def)

lemma c_assert_eq_Inr [simp]: "c_assert P k = Inr y \<longleftrightarrow> P \<and> k = Inr y"
  by (simp add: c_assert_def)

lemma rbind_cong [fundef_cong]: "x = y \<Longrightarrow> (\<And>v. y = Inr v \<Longrightarrow> f v = g v) \<Longrightarrow> rbind x f = rbind y g"
  by (cases y) auto

lemma c_assert_cong [fundef_cong]: "P = Q \<Longrightarrow> (Q \<Longrightarrow> k = l) \<Longrightarrow> c_assert P k = c_assert Q l"
  by (simp add: c_assert_def)

section \<open>Lemma collections\<close>

text \<open>
  \<open>frob_enum\<close>: values of the enumerators of \<open>frob.h\<close>;
  \<open>class_simps\<close>: membership of concrete bytes in Ragel's character classes.
\<close>

named_theorems frob_enum
named_theorems class_simps

section \<open>Memory\<close>

text \<open>
  An object is the list of its bytes. \<open>write_at mem off bs\<close> is \<open>memcpy(mem + off, bs, n)\<close>.
\<close>

definition write_at :: "byte list \<Rightarrow> nat \<Rightarrow> byte list \<Rightarrow> byte list outcome" where
  "write_at mem off bs =
     (if off + length bs \<le> length mem
      then Inr (take off mem @ bs @ drop (off + length bs) mem)
      else Inl Out_Of_Bounds_Write)"

lemma write_at_Inr:
  "off + length bs \<le> length mem \<Longrightarrow>
   write_at mem off bs = Inr (take off mem @ bs @ drop (off + length bs) mem)"
  by (simp add: write_at_def)

lemma write_at_length: "write_at mem off bs = Inr mem' \<Longrightarrow> length mem' = length mem"
  by (auto simp: write_at_def split: if_splits)

lemma write_at_prefix:
  "write_at mem off bs = Inr mem' \<Longrightarrow> k \<le> length bs \<Longrightarrow>
   take (off + k) mem' = take off mem @ take k bs"
  by (auto simp: write_at_def split: if_splits)

lemma write_at_below: "write_at mem off bs = Inr mem' \<Longrightarrow> take off mem' = take off mem"
  using write_at_prefix [of mem off bs mem' 0] by simp

text \<open>\<open>copy_into dst src\<close> is the macro \<open>COPY\<close>: at most \<open>elementsof(dst)\<close> bytes are stored.\<close>

definition copy_into :: "byte list \<Rightarrow> byte list \<Rightarrow> byte list" where
  "copy_into dst src = take (length dst) src @ drop (length src) dst"

lemma copy_into_length [simp]: "length (copy_into dst src) = length dst"
  by (simp add: copy_into_def min_def)

lemma copy_into_Nil [simp]: "copy_into dst [] = dst"
  by (simp add: copy_into_def)

lemma add_max_le [simp]: "c + max a b \<le> n \<longleftrightarrow> c + a \<le> n \<and> c + b \<le> (n :: nat)"
  by auto

section \<open>Null-padded character arrays\<close>

text \<open>
  "All char arrays are NOT null-terminated, but null-padded" (\<open>frob.h\<close>). \<open>cstr a\<close> is the text
  of the array \<open>a\<close>, \<open>pad n w\<close> the array of \<open>n\<close> bytes with text \<open>w\<close>.
\<close>

definition cstr :: "byte list \<Rightarrow> byte list" where
  "cstr a = takeWhile (\<lambda>b. b \<noteq> 0) a"

definition pad :: "nat \<Rightarrow> byte list \<Rightarrow> byte list" where
  "pad n w = w @ replicate (n - length w) 0"

definition zeros :: "nat \<Rightarrow> byte list" where
  "zeros n = replicate n 0"

text \<open>\<open>text_field n P a\<close>: an array of \<open>n\<close> bytes whose text lies in the class \<open>P\<close>.\<close>

definition text_field :: "nat \<Rightarrow> (byte \<Rightarrow> bool) \<Rightarrow> byte list \<Rightarrow> bool" where
  "text_field n P a \<longleftrightarrow> length a = n \<and> list_all P (cstr a) \<and> a = pad n (cstr a)"

lemma length_zeros [simp]: "length (zeros n) = n"
  by (simp add: zeros_def)

lemma length_pad: "length w \<le> n \<Longrightarrow> length (pad n w) = n"
  by (simp add: pad_def)

lemma cstr_length: "length (cstr a) \<le> length a"
  by (simp add: cstr_def length_takeWhile_le)

lemma cstr_no_zero: "0 \<notin> set (cstr a)"
  by (auto simp: cstr_def dest: set_takeWhileD)

lemma cstr_pad: "0 \<notin> set w \<Longrightarrow> cstr (pad n w) = w"
proof -
  assume w: "0 \<notin> set w"
  have "takeWhile (\<lambda>b. b \<noteq> 0) (replicate k (0 :: byte)) = []" for k
    by (cases k) auto
  moreover have "\<forall>b \<in> set w. b \<noteq> 0" using w by metis
  ultimately show ?thesis by (simp add: cstr_def pad_def takeWhile_append2)
qed

lemma copy_into_zeros: "length w \<le> n \<Longrightarrow> copy_into (zeros n) w = pad n w"
  by (simp add: copy_into_def zeros_def pad_def)

lemma text_field_copy: "text_field n P a \<Longrightarrow> copy_into (zeros n) (cstr a) = a"
  using cstr_length [of a] by (simp add: text_field_def copy_into_zeros)

lemma text_field_length: "text_field n P a \<Longrightarrow> length a = n"
  by (simp add: text_field_def)

lemma text_field_class: "text_field n P a \<Longrightarrow> list_all P (cstr a)"
  by (simp add: text_field_def)

lemma text_field_pad: "length w \<le> n \<Longrightarrow> 0 \<notin> set w \<Longrightarrow> list_all P w \<Longrightarrow> text_field n P (pad n w)"
  by (simp add: text_field_def cstr_pad length_pad)

section \<open>String literals\<close>

definition lit :: "string \<Rightarrow> byte list" where
  "lit s = map of_char s"

lemma lit_simps [simp]: "lit [] = []" "lit (c # s) = of_char c # lit s"
  by (simp_all add: lit_def)

end
