(* ===== verification/Frob_Types.thy ===== *)
theory Frob_Types
  imports Prelude
begin

text \<open>
  The data of the ECR-EFT protocol as \<open>frob.h\<close> declares it: message types with their class,
  channel and number bits, the enumerations, one record per message body, the body union and
  the message.
\<close>

section \<open>Message types\<close>

text \<open>
  \<open>enum FrobMessageType\<close> is used as an integer (masks, \<open>type + 1\<close>, zero for "not known yet"),
  so it is modelled at its width; \<open>FROB_NONE\<close> is the \<open>int\<close> value -1.
\<close>

type_synonym msg_type = "32 word"

definition FROB_NONE :: msg_type where "FROB_NONE = - 1"
definition FROB_MESSAGE_CLASS_MASK :: msg_type where "FROB_MESSAGE_CLASS_MASK = 0xf0"
definition FROB_T :: msg_type where "FROB_T = 0x00"
definition FROB_D :: msg_type where "FROB_D = 0x10"
definition FROB_S :: msg_type where "FROB_S = 0x20"
definition FROB_P :: msg_type where "FROB_P = 0x30"
definition FROB_I :: msg_type where "FROB_I = 0x40"
definition FROB_A :: msg_type where "FROB_A = 0x50"
definition FROB_K :: msg_type where "FROB_K = 0x60"
definition FROB_M :: msg_type where "FROB_M = 0x70"
definition FROB_L :: msg_type where "FROB_L = 0x80"
definition FROB_B :: msg_type where "FROB_B = 0x90"
definition FROB_MESSAGE_CHANNEL_MASK :: msg_type where "FROB_MESSAGE_CHANNEL_MASK = 0xf00"
definition FROB_LOCAL :: msg_type where "FROB_LOCAL = 0x100"
definition FROB_PAYMENT :: msg_type where "FROB_PAYMENT = 0x200"
definition FROB_STORAGE :: msg_type where "FROB_STORAGE = 0x300"
definition FROB_MAPPED :: msg_type where "FROB_MAPPED = 0x400"
definition FROB_UI :: msg_type where "FROB_UI = 0x500"
definition FROB_MESSAGE_NUMBER_MASK :: msg_type where "FROB_MESSAGE_NUMBER_MASK = 0x0f"

definition FROB_T1 :: msg_type where "FROB_T1 = FROB_LOCAL OR FROB_T OR 0x1"
definition FROB_T2 :: msg_type where "FROB_T2 = FROB_LOCAL OR FROB_T OR 0x2"
definition FROB_T3 :: msg_type where "FROB_T3 = FROB_LOCAL OR FROB_T OR 0x3"
definition FROB_T4 :: msg_type where "FROB_T4 = FROB_LOCAL OR FROB_T OR 0x4"
definition FROB_T5 :: msg_type where "FROB_T5 = FROB_LOCAL OR FROB_T OR 0x5"
definition FROB_D4 :: msg_type where "FROB_D4 = FROB_LOCAL OR FROB_D OR 0x4"
definition FROB_D5 :: msg_type where "FROB_D5 = FROB_LOCAL OR FROB_D OR 0x5"
definition FROB_S1 :: msg_type where "FROB_S1 = FROB_PAYMENT OR FROB_S OR 0x1"
definition FROB_S2 :: msg_type where "FROB_S2 = FROB_PAYMENT OR FROB_S OR 0x2"
definition FROB_P1 :: msg_type where "FROB_P1 = FROB_PAYMENT OR FROB_P OR 0x1"
definition FROB_I1 :: msg_type where "FROB_I1 = FROB_PAYMENT OR FROB_I OR 0x1"
definition FROB_A1 :: msg_type where "FROB_A1 = FROB_PAYMENT OR FROB_A OR 0x1"
definition FROB_A2 :: msg_type where "FROB_A2 = FROB_PAYMENT OR FROB_A OR 0x2"
definition FROB_D0 :: msg_type where "FROB_D0 = FROB_LOCAL OR FROB_D OR 0x0"
definition FROB_D1 :: msg_type where "FROB_D1 = FROB_LOCAL OR FROB_D OR 0x1"
definition FROB_D6 :: msg_type where "FROB_D6 = FROB_MAPPED OR FROB_D OR 0x6"
definition FROB_D2 :: msg_type where "FROB_D2 = FROB_LOCAL OR FROB_D OR 0x2"
definition FROB_D3 :: msg_type where "FROB_D3 = FROB_LOCAL OR FROB_D OR 0x3"
definition FROB_D7 :: msg_type where "FROB_D7 = FROB_MAPPED OR FROB_D OR 0x7"
definition FROB_D8 :: msg_type where "FROB_D8 = FROB_MAPPED OR FROB_D OR 0x8"
definition FROB_D9 :: msg_type where "FROB_D9 = FROB_MAPPED OR FROB_D OR 0x9"
definition FROB_DA :: msg_type where "FROB_DA = FROB_MAPPED OR FROB_D OR 0xA"
definition FROB_K0 :: msg_type where "FROB_K0 = FROB_UI OR FROB_K OR 0x0"
definition FROB_K1 :: msg_type where "FROB_K1 = FROB_UI OR FROB_K OR 0x1"
definition FROB_K2 :: msg_type where "FROB_K2 = FROB_UI OR FROB_K OR 0x2"
definition FROB_K3 :: msg_type where "FROB_K3 = FROB_UI OR FROB_K OR 0x3"
definition FROB_K4 :: msg_type where "FROB_K4 = FROB_UI OR FROB_K OR 0x4"
definition FROB_K5 :: msg_type where "FROB_K5 = FROB_UI OR FROB_K OR 0x5"
definition FROB_K6 :: msg_type where "FROB_K6 = FROB_UI OR FROB_K OR 0x6"
definition FROB_K7 :: msg_type where "FROB_K7 = FROB_UI OR FROB_K OR 0x7"
definition FROB_K8 :: msg_type where "FROB_K8 = FROB_UI OR FROB_K OR 0x8"
definition FROB_K9 :: msg_type where "FROB_K9 = FROB_UI OR FROB_K OR 0x9"
definition FROB_M1 :: msg_type where "FROB_M1 = FROB_STORAGE OR FROB_M OR 0x1"
definition FROB_L1 :: msg_type where "FROB_L1 = FROB_LOCAL OR FROB_L OR 0x1"
definition FROB_B1 :: msg_type where "FROB_B1 = FROB_LOCAL OR FROB_B OR 0x1"
definition FROB_B2 :: msg_type where "FROB_B2 = FROB_LOCAL OR FROB_B OR 0x2"
definition FROB_B3 :: msg_type where "FROB_B3 = FROB_LOCAL OR FROB_B OR 0x3"
definition FROB_B4 :: msg_type where "FROB_B4 = FROB_LOCAL OR FROB_B OR 0x4"

lemmas frob_mask_defs =
  FROB_NONE_def FROB_MESSAGE_CLASS_MASK_def FROB_MESSAGE_CHANNEL_MASK_def FROB_MESSAGE_NUMBER_MASK_def
  FROB_T_def FROB_D_def FROB_S_def FROB_P_def FROB_I_def FROB_A_def FROB_K_def FROB_M_def FROB_L_def FROB_B_def
  FROB_LOCAL_def FROB_PAYMENT_def FROB_STORAGE_def FROB_MAPPED_def FROB_UI_def

text \<open>The enumerators as numerals; these equations are what the proofs compute with.\<close>

lemma frob_type_values [frob_enum]:
  "FROB_T1 = 0x101"
  "FROB_T2 = 0x102"
  "FROB_T3 = 0x103"
  "FROB_T4 = 0x104"
  "FROB_T5 = 0x105"
  "FROB_D4 = 0x114"
  "FROB_D5 = 0x115"
  "FROB_S1 = 0x221"
  "FROB_S2 = 0x222"
  "FROB_P1 = 0x231"
  "FROB_I1 = 0x241"
  "FROB_A1 = 0x251"
  "FROB_A2 = 0x252"
  "FROB_D0 = 0x110"
  "FROB_D1 = 0x111"
  "FROB_D6 = 0x416"
  "FROB_D2 = 0x112"
  "FROB_D3 = 0x113"
  "FROB_D7 = 0x417"
  "FROB_D8 = 0x418"
  "FROB_D9 = 0x419"
  "FROB_DA = 0x41a"
  "FROB_K0 = 0x560"
  "FROB_K1 = 0x561"
  "FROB_K2 = 0x562"
  "FROB_K3 = 0x563"
  "FROB_K4 = 0x564"
  "FROB_K5 = 0x565"
  "FROB_K6 = 0x566"
  "FROB_K7 = 0x567"
  "FROB_K8 = 0x568"
  "FROB_K9 = 0x569"
  "FROB_M1 = 0x371"
  "FROB_L1 = 0x181"
  "FROB_B1 = 0x191"
  "FROB_B2 = 0x192"
  "FROB_B3 = 0x193"
  "FROB_B4 = 0x194"
  by (simp_all add: frob_mask_defs
      FROB_T1_def FROB_T2_def FROB_T3_def FROB_T4_def FROB_T5_def FROB_D4_def
      FROB_D5_def FROB_S1_def FROB_S2_def FROB_P1_def FROB_I1_def FROB_A1_def
      FROB_A2_def FROB_D0_def FROB_D1_def FROB_D6_def FROB_D2_def FROB_D3_def
      FROB_D7_def FROB_D8_def FROB_D9_def FROB_DA_def FROB_K0_def FROB_K1_def
      FROB_K2_def FROB_K3_def FROB_K4_def FROB_K5_def FROB_K6_def FROB_K7_def
      FROB_K8_def FROB_K9_def FROB_M1_def FROB_L1_def FROB_B1_def FROB_B2_def
      FROB_B3_def FROB_B4_def)

definition all_types :: "msg_type list" where
  "all_types = [FROB_T1, FROB_T2, FROB_T3, FROB_T4, FROB_T5, FROB_D4, FROB_D5, FROB_S1, FROB_S2, FROB_P1,
     FROB_I1, FROB_A1, FROB_A2, FROB_D0, FROB_D1, FROB_D6, FROB_D2, FROB_D3, FROB_D7, FROB_D8,
     FROB_D9, FROB_DA, FROB_K0, FROB_K1, FROB_K2, FROB_K3, FROB_K4, FROB_K5, FROB_K6, FROB_K7,
     FROB_K8, FROB_K9, FROB_M1, FROB_L1, FROB_B1, FROB_B2, FROB_B3, FROB_B4]"

section \<open>Enumerations of the message bodies\<close>

datatype FrobDeviceType =
    DEVICE_TYPE_ECR
  | DEVICE_TYPE_EFT_WITH_PINPAD_BUILTIN
  | DEVICE_TYPE_EFT_WITH_PINPAD_EXTERNAL
  | DEVICE_TYPE_EFT_WITH_PINPAD_PROGRAMMABLE

primrec device_type_code :: "FrobDeviceType \<Rightarrow> nat" where
  "device_type_code DEVICE_TYPE_ECR = 0"
| "device_type_code DEVICE_TYPE_EFT_WITH_PINPAD_BUILTIN = 1"
| "device_type_code DEVICE_TYPE_EFT_WITH_PINPAD_EXTERNAL = 2"
| "device_type_code DEVICE_TYPE_EFT_WITH_PINPAD_PROGRAMMABLE = 3"

datatype FrobTransactionType = TRANSACTION_TYPE_PAYMENT | TRANSACTION_TYPE_VOID

datatype FrobTransactionStatus =
    WAIT_FOR_CARD
  | PAN_CHECKING
  | WAIT_FOR_MID
  | WAIT_FOR_AUTHORISATION
  | WAIT_FOR_AMOUNT_ENTRY
  | WAIT_FOR_CASHBACK_ENTRY
  | WAIT_FOR_ORIGINAL_AMOUNT
  | WAIT_FOR_ORIGINAL_AC
  | WAIT_FOR_PIN
  | CONNECTING_TO_ACQUIERER
  | CONNECTING_TO_ACQUIERER_TRY_2
  | CONNECTING_TO_ACQUIERER_TRY_3
  | VOICE_AUTHORISATION
  | SIGNATURE_VERIFICATION
  | CARDHOLDER_IDENTITY_VERIFICATION
  | RECEIPT_PRINTING_APPROVED
  | RECEIPT_PRINTING_COPY
  | RECEIPT_PRINTING_DECLINED
  | TRANSACTION_ABORTING
  | RECEIPT_PRINTING_VOID
  | OTHER

primrec transaction_status_code :: "FrobTransactionStatus \<Rightarrow> nat" where
  "transaction_status_code WAIT_FOR_CARD = 20"
| "transaction_status_code PAN_CHECKING = 30"
| "transaction_status_code WAIT_FOR_MID = 40"
| "transaction_status_code WAIT_FOR_AUTHORISATION = 50"
| "transaction_status_code WAIT_FOR_AMOUNT_ENTRY = 60"
| "transaction_status_code WAIT_FOR_CASHBACK_ENTRY = 65"
| "transaction_status_code WAIT_FOR_ORIGINAL_AMOUNT = 70"
| "transaction_status_code WAIT_FOR_ORIGINAL_AC = 80"
| "transaction_status_code WAIT_FOR_PIN = 90"
| "transaction_status_code CONNECTING_TO_ACQUIERER = 100"
| "transaction_status_code CONNECTING_TO_ACQUIERER_TRY_2 = 101"
| "transaction_status_code CONNECTING_TO_ACQUIERER_TRY_3 = 102"
| "transaction_status_code VOICE_AUTHORISATION = 110"
| "transaction_status_code SIGNATURE_VERIFICATION = 120"
| "transaction_status_code CARDHOLDER_IDENTITY_VERIFICATION = 130"
| "transaction_status_code RECEIPT_PRINTING_APPROVED = 140"
| "transaction_status_code RECEIPT_PRINTING_COPY = 155"
| "transaction_status_code RECEIPT_PRINTING_DECLINED = 150"
| "transaction_status_code TRANSACTION_ABORTING = 180"
| "transaction_status_code RECEIPT_PRINTING_VOID = 190"
| "transaction_status_code OTHER = 1000"

section \<open>Message bodies\<close>

text \<open>
  A \<open>char x[n]\<close> is the list of its \<open>n\<close> bytes; integers keep their width. The empty
  structures (T1, T3, D4, P1, A1, K1) are the constructors without arguments of the union.
\<close>

type_synonym token_t = "32 word"
type_synonym error_t = "64 word"
type_synonym version_t = "byte list"  \<comment> \<open>4\<close>
type_synonym amount_t = "byte list"   \<comment> \<open>12 digits\<close>

record frob_header =
  hdr_type :: msg_type
  hdr_token :: token_t

record frob_device_info =
  info_version :: version_t
  info_vendor :: "byte list"       \<comment> \<open>20\<close>
  info_device_type :: "byte list"  \<comment> \<open>20\<close>
  info_device_id :: "byte list"    \<comment> \<open>20\<close>

record frob_d5 =
  display_lc :: "8 word"
  display_cpl :: "8 word"
  printer_cpl :: "8 word"
  printer_cpl2x :: "8 word"
  printer_cpl4x :: "8 word"
  printer_cpln :: "8 word"
  printer_max_barcode_length :: "16 word"
  printer_max_qrcode_length :: "16 word"
  printer_max_bitmap_count :: "16 word"
  printer_max_bitmap_width :: "16 word"
  printer_max_bitmap_height :: "16 word"
  printer_aspect_ratio :: "16 word"
  printer_buffer_max_lines :: "16 word"
  device_topo :: FrobDeviceType
  key_enter :: "byte list"      \<comment> \<open>every key name is 16 bytes\<close>
  key_cancel :: "byte list"
  key_check :: "byte list"
  key_backspace :: "byte list"
  key_delete :: "byte list"
  key_up :: "byte list"
  key_down :: "byte list"
  key_left :: "byte list"
  key_right :: "byte list"
  printer_h2 :: bool
  printer_h4 :: bool
  printer_inv :: bool
  d5_nfc :: bool
  d5_ccr :: bool
  d5_mcr :: bool
  d5_bar :: bool

record frob_s1 =
  s1_transaction_type :: FrobTransactionType
  s1_ecr_id :: "byte list"        \<comment> \<open>20\<close>
  s1_payment_id :: "byte list"    \<comment> \<open>20\<close>
  s1_amount_gross :: amount_t
  s1_amount_net :: amount_t
  s1_vat :: amount_t
  s1_cashback :: amount_t
  s1_max_cashback :: amount_t
  s1_currency :: "byte list"      \<comment> \<open>3\<close>

record frob_s2 =
  s2_error :: error_t
  s2_card_token :: "byte list"      \<comment> \<open>32 binary\<close>
  s2_mid :: "byte list"             \<comment> \<open>20\<close>
  s2_tid :: "byte list"             \<comment> \<open>20\<close>
  s2_trx_id :: "byte list"          \<comment> \<open>20\<close>
  s2_trx_amount :: amount_t
  s2_cashback :: amount_t
  s2_payment_method :: "byte list"  \<comment> \<open>40\<close>
  s2_msg :: "byte list"             \<comment> \<open>80\<close>

record frob_i1 =
  i1_status :: FrobTransactionStatus
  i1_msg :: "byte list"  \<comment> \<open>80\<close>

record frob_a2 =
  a2_error :: error_t
  a2_msg :: "byte list"  \<comment> \<open>100\<close>

record frob_b2 =
  b2_info :: frob_device_info
  b2_result :: error_t
  b2_modulus :: "byte list"   \<comment> \<open>256 binary\<close>
  b2_exponent :: "byte list"  \<comment> \<open>3 binary\<close>

record frob_b3 =
  b3_kek :: "byte list"  \<comment> \<open>256 binary\<close>
  b3_kcv :: "byte list"  \<comment> \<open>3 binary\<close>

record frob_k0 =
  k0_result :: error_t
  k0_output :: "byte list"  \<comment> \<open>100\<close>

text \<open>The structures with a single member are that member.\<close>

type_synonym frob_t2 = frob_device_info
type_synonym frob_t4 = "version_t list"  \<comment> \<open>\<open>supported_versions\<close>: 20 of them\<close>
type_synonym frob_t5 = version_t
type_synonym frob_b1 = frob_device_info
type_synonym frob_b4 = error_t

datatype frob_body =
    T1
  | T2 frob_t2
  | T3
  | T4 frob_t4
  | T5 frob_t5
  | D4
  | D5 frob_d5
  | S1 frob_s1
  | S2 frob_s2
  | I1 frob_i1
  | P1
  | A1
  | A2 frob_a2
  | B1 frob_b1
  | B2 frob_b2
  | B3 frob_b3
  | B4 frob_b4
  | K0 frob_k0
  | K1

text \<open>\<open>attr\<close> is \<open>char attr[19][3]\<close>.\<close>

record frob_msg =
  msg_magic :: "byte list"
  msg_header :: frob_header
  msg_body :: frob_body
  msg_attr :: "byte list list"

definition FROB_MAGIC :: "byte list" where
  "FROB_MAGIC = lit ''FROBCr1'' @ [0]"

section \<open>Zero-initialised structures\<close>

definition zero_info :: frob_device_info where
  "zero_info = \<lparr>info_version = zeros 4, info_vendor = zeros 20,
     info_device_type = zeros 20, info_device_id = zeros 20\<rparr>"

definition zero_d5 :: frob_d5 where
  "zero_d5 = \<lparr>display_lc = 0, display_cpl = 0, printer_cpl = 0, printer_cpl2x = 0,
     printer_cpl4x = 0, printer_cpln = 0, printer_max_barcode_length = 0,
     printer_max_qrcode_length = 0, printer_max_bitmap_count = 0, printer_max_bitmap_width = 0,
     printer_max_bitmap_height = 0, printer_aspect_ratio = 0, printer_buffer_max_lines = 0,
     device_topo = DEVICE_TYPE_ECR, key_enter = zeros 16, key_cancel = zeros 16,
     key_check = zeros 16, key_backspace = zeros 16, key_delete = zeros 16, key_up = zeros 16,
     key_down = zeros 16, key_left = zeros 16, key_right = zeros 16, printer_h2 = False,
     printer_h4 = False, printer_inv = False, d5_nfc = False, d5_ccr = False, d5_mcr = False,
     d5_bar = False\<rparr>"

definition zero_s1 :: frob_s1 where
  "zero_s1 = \<lparr>s1_transaction_type = TRANSACTION_TYPE_PAYMENT, s1_ecr_id = zeros 20,
     s1_payment_id = zeros 20, s1_amount_gross = zeros 12, s1_amount_net = zeros 12,
     s1_vat = zeros 12, s1_cashback = zeros 12, s1_max_cashback = zeros 12,
     s1_currency = zeros 3\<rparr>"

definition zero_s2 :: frob_s2 where
  "zero_s2 = \<lparr>s2_error = 0, s2_card_token = zeros 32, s2_mid = zeros 20, s2_tid = zeros 20,
     s2_trx_id = zeros 20, s2_trx_amount = zeros 12, s2_cashback = zeros 12,
     s2_payment_method = zeros 40, s2_msg = zeros 80\<rparr>"

definition zero_b2 :: frob_b2 where
  "zero_b2 = \<lparr>b2_info = zero_info, b2_result = 0, b2_modulus = zeros 256, b2_exponent = zeros 3\<rparr>"

definition zero_b3 :: frob_b3 where
  "zero_b3 = \<lparr>b3_kek = zeros 256, b3_kcv = zeros 3\<rparr>"

definition zero_k0 :: frob_k0 where
  "zero_k0 = \<lparr>k0_result = 0, k0_output = zeros 100\<rparr>"

definition zero_attr :: "byte list list" where
  "zero_attr = replicate 19 (zeros 3)"

lemmas zero_defs = zero_info_def zero_d5_def zero_s1_def zero_s2_def zero_b2_def zero_b3_def zero_k0_def

section \<open>Facts about the numbering\<close>

lemma distinct_all_types: "distinct all_types"
  by (simp add: all_types_def frob_enum)

lemma length_all_types: "length all_types = 38"
  by (simp add: all_types_def)

lemma device_type_code_inj: "device_type_code a = device_type_code b \<longleftrightarrow> a = b"
  by (cases a; cases b) simp_all

lemma device_type_code_le: "device_type_code a \<le> 3"
  by (cases a) simp_all

end
