(* ===== verification/Numerals.thy ===== *)
theory Numerals
  imports Prelude
begin

text \<open>
  The C library's conversions between numbers and text that the program uses (\<open>%u\<close>, \<open>%X\<close>,
  \<open>%02X\<close>, \<open>strtol\<close>, \<open>strtoul\<close>), and \<open>hex2nibble\<close>/\<open>unhex\<close> of \<open>utils.c\<close>. The locale
  \<open>radix\<close> states what a positional notation promises; decimal and hexadecimal text are its
  interpretations.
\<close>

section \<open>Positional notation\<close>

fun to_digits :: "nat \<Rightarrow> (nat \<Rightarrow> byte) \<Rightarrow> nat \<Rightarrow> byte list" where
  "to_digits base dig n =
     (if base \<le> 1 \<or> n < base then [dig n]
      else to_digits base dig (n div base) @ [dig (n mod base)])"

declare to_digits.simps [simp del]

definition of_digits :: "nat \<Rightarrow> (byte \<Rightarrow> nat) \<Rightarrow> byte list \<Rightarrow> nat" where
  "of_digits base val ds = foldl (\<lambda>v d. base * v + val d) 0 ds"

lemma of_digits_simps [simp]:
  "of_digits base val [] = 0"
  "of_digits base val (ds @ [d]) = base * of_digits base val ds + val d"
  by (simp_all add: of_digits_def)

lemma of_digits_single [simp]: "of_digits base val [d] = val d"
  by (simp add: of_digits_def)

lemma of_digits_less:
  "\<forall>d \<in> set ds. val d < base \<Longrightarrow> of_digits base val ds < base ^ length ds"
proof (induction ds rule: rev_induct)
  case (snoc d ds)
  then have "of_digits base val ds + 1 \<le> base ^ length ds" by simp
  then have "base * (of_digits base val ds + 1) \<le> base * base ^ length ds"
    by (rule mult_le_mono2)
  moreover from snoc.prems have "val d < base" by simp
  ultimately show ?case by (simp add: algebra_simps)
qed simp

lemma to_digits_nonempty [simp]: "to_digits base dig n \<noteq> []"
  by (subst to_digits.simps) simp

locale radix =
  fixes base :: nat and dig :: "nat \<Rightarrow> byte" and val :: "byte \<Rightarrow> nat" and cls :: "byte \<Rightarrow> bool"
  assumes base_gt_1: "1 < base"
    and val_dig: "d < base \<Longrightarrow> val (dig d) = d"
    and dig_cls: "d < base \<Longrightarrow> cls (dig d)"
begin

lemma of_to_digits: "of_digits base val (to_digits base dig n) = n"
proof (induction n rule: less_induct)
  case (less n)
  have "0 < base" using base_gt_1 by simp
  moreover have "n div base < n" if "\<not> n < base"
    using that base_gt_1 by (simp add: div_less_dividend)
  ultimately show ?case
    using less base_gt_1 by (subst to_digits.simps) (auto simp: val_dig)
qed

lemma to_digits_cls: "list_all cls (to_digits base dig n)"
proof (induction n rule: less_induct)
  case (less n)
  have "0 < base" using base_gt_1 by simp
  moreover have "n div base < n" if "\<not> n < base"
    using that base_gt_1 by (simp add: div_less_dividend)
  ultimately show ?case
    using less base_gt_1 by (subst to_digits.simps) (auto simp: dig_cls)
qed

lemma to_digits_length: "n < base ^ k \<Longrightarrow> 0 < k \<Longrightarrow> length (to_digits base dig n) \<le> k"
proof (induction k arbitrary: n)
  case (Suc k)
  show ?case
  proof (cases "n < base")
    case True
    then show ?thesis by (subst to_digits.simps) simp
  next
    case False
    then have k: "0 < k" using Suc.prems by (cases k) auto
    have "n < base ^ k * base" using Suc.prems by (simp add: mult.commute)
    then have "n div base < base ^ k" by (rule less_mult_imp_div_less)
    then have "length (to_digits base dig (n div base)) \<le> k" using Suc.IH k by blast
    then show ?thesis using False base_gt_1 by (subst to_digits.simps) simp
  qed
qed simp

end

section \<open>Digits\<close>

text \<open>\<open>hexdig\<close> is a digit as \<open>%X\<close> prints it.\<close>

definition decdig :: "nat \<Rightarrow> byte" where
  "decdig d = of_nat (48 + d)"

definition hexdig :: "nat \<Rightarrow> byte" where
  "hexdig d = (if d < 10 then of_nat (48 + d) else of_nat (55 + d))"

definition decval :: "byte \<Rightarrow> nat" where
  "decval b = unat b - 48"

text \<open>
  \<open>hex2nibble\<close> takes a \<open>char\<close>: a byte of 0x80 or more is negative there and, as here, in none of
  the ranges.
\<close>

definition hex2nibble :: "byte \<Rightarrow> byte" where
  "hex2nibble h =
     (if 0x41 \<le> h \<and> h \<le> 0x46 then h - 0x41 + 10
      else if 0x61 \<le> h \<and> h \<le> 0x66 then h - 0x61 + 10
      else if 0x30 \<le> h \<and> h \<le> 0x39 then h - 0x30
      else 0)"

definition unhex :: "byte \<Rightarrow> byte \<Rightarrow> byte" where
  "unhex h0 h1 = push_bit 4 (hex2nibble h0) OR hex2nibble h1"

definition is_digit :: "byte \<Rightarrow> bool" where
  "is_digit b \<longleftrightarrow> 0x30 \<le> b \<and> b \<le> 0x39"

definition is_xdigit :: "byte \<Rightarrow> bool" where
  "is_xdigit b \<longleftrightarrow> is_digit b \<or> (0x41 \<le> b \<and> b \<le> 0x46) \<or> (0x61 \<le> b \<and> b \<le> 0x66)"

lemma less_10_cases: "d < 10 \<longleftrightarrow> d \<in> {0, 1, 2, 3, 4, 5, 6, 7, 8, 9::nat}"
  unfolding insert_iff empty_iff by presburger

lemma less_16_cases:
  "d < 16 \<longleftrightarrow> d \<in> {0, 1, 2, 3, 4, 5, 6, 7, 8, 9, 10, 11, 12, 13, 14, 15::nat}"
  unfolding insert_iff empty_iff by presburger

lemma decdig_facts:
  assumes "d < 10"
  shows "decval (decdig d) = d" "is_digit (decdig d)" "decdig d \<noteq> 0"
  using assms unfolding less_10_cases
  by (auto simp: decdig_def decval_def is_digit_def)

lemma hexdig_facts:
  assumes "d < 16"
  shows "hex2nibble (hexdig d) = of_nat d" "is_xdigit (hexdig d)" "hexdig d \<noteq> 0"
proof -
  have "\<forall>d \<in> {0, 1, 2, 3, 4, 5, 6, 7, 8, 9, 10, 11, 12, 13, 14, 15}.
      hex2nibble (hexdig d) = of_nat d \<and> is_xdigit (hexdig d) \<and> hexdig d \<noteq> 0"
    by (simp add: hexdig_def hex2nibble_def is_xdigit_def is_digit_def)
  with assms show "hex2nibble (hexdig d) = of_nat d" "is_xdigit (hexdig d)" "hexdig d \<noteq> 0"
    unfolding less_16_cases by blast+
qed

lemma hexdig_val: "d < 16 \<Longrightarrow> unat (hex2nibble (hexdig d)) = d"
  by (simp add: hexdig_facts unsigned_of_nat take_bit_nat_eq_self)

lemma hex2nibble_less_word: "hex2nibble h < 16"
proof -
  have "0x41 \<le> h \<Longrightarrow> h \<le> 0x46 \<Longrightarrow> h - 0x41 + 10 < 16" by unat_arith
  moreover have "0x61 \<le> h \<Longrightarrow> h \<le> 0x66 \<Longrightarrow> h - 0x61 + 10 < 16" by unat_arith
  moreover have "0x30 \<le> h \<Longrightarrow> h \<le> 0x39 \<Longrightarrow> h - 0x30 < 16" by unat_arith
  ultimately show ?thesis by (simp add: hex2nibble_def)
qed

lemma hex2nibble_less: "unat (hex2nibble h) < 16"
  using hex2nibble_less_word [of h] by (simp add: word_less_nat_alt)

interpretation decimal: radix 10 decdig decval is_digit
  by unfold_locales (auto simp: decdig_facts)

interpretation hexadecimal: radix 16 hexdig "\<lambda>b. unat (hex2nibble b)" is_xdigit
  by unfold_locales (auto simp: hexdig_val hexdig_facts(2))

section \<open>printf and strtol\<close>

definition print_u :: "nat \<Rightarrow> byte list" where
  "print_u n = to_digits 10 decdig n"

definition print_X :: "nat \<Rightarrow> byte list" where
  "print_X n = to_digits 16 hexdig n"

definition print_02X :: "byte \<Rightarrow> byte list" where
  "print_02X b = [hexdig (unat b div 16), hexdig (unat b mod 16)]"

text \<open>
  The text handed to \<open>strtol\<close> and \<open>strtoul\<close> is a run of digits up to a separator, so only that
  part of their behaviour is needed: the value of the leading digits, saturating.
\<close>

definition strtol10 :: "byte list \<Rightarrow> nat" where
  "strtol10 s = min (of_digits 10 decval (takeWhile is_digit s)) (2 ^ 63 - 1)"

definition strtoul16 :: "byte list \<Rightarrow> nat" where
  "strtoul16 s = min (of_digits 16 (\<lambda>b. unat (hex2nibble b)) (takeWhile is_xdigit s)) (2 ^ 64 - 1)"

lemma takeWhile_all: "list_all P s \<Longrightarrow> takeWhile P s = s"
  by (simp add: list_all_iff)

lemma print_u_digits [simp]: "list_all is_digit (print_u n)"
  by (simp add: print_u_def decimal.to_digits_cls)

lemma print_X_digits [simp]: "list_all is_xdigit (print_X n)"
  by (simp add: print_X_def hexadecimal.to_digits_cls)

lemma print_nonempty [simp]: "print_u n \<noteq> []" "print_X n \<noteq> []"
  by (simp_all add: print_u_def print_X_def)

lemma strtol_print: "n < 2 ^ 63 \<Longrightarrow> strtol10 (print_u n) = n"
  unfolding strtol10_def takeWhile_all [OF print_u_digits]
  by (simp add: print_u_def decimal.of_to_digits min_def)

lemma strtoul_print: "n < 2 ^ 64 \<Longrightarrow> strtoul16 (print_X n) = n"
  unfolding strtoul16_def takeWhile_all [OF print_X_digits]
  by (simp add: print_X_def hexadecimal.of_to_digits min_def)

lemma print_X_length: "n < 16 ^ k \<Longrightarrow> 0 < k \<Longrightarrow> length (print_X n) \<le> k"
  by (simp add: print_X_def hexadecimal.to_digits_length)

lemma print_u_length: "n < 10 ^ k \<Longrightarrow> 0 < k \<Longrightarrow> length (print_u n) \<le> k"
  by (simp add: print_u_def decimal.to_digits_length)

lemma strtoul_bound: "length s \<le> 6 \<Longrightarrow> strtoul16 s < 2 ^ 24"
proof -
  assume s: "length s \<le> 6"
  let ?t = "takeWhile is_xdigit s"
  have "of_digits 16 (\<lambda>b. unat (hex2nibble b)) ?t < 16 ^ length ?t"
    by (rule of_digits_less) (simp add: hex2nibble_less)
  also have "16 ^ length ?t \<le> (16 :: nat) ^ 6"
    using length_takeWhile_le [of is_xdigit s] s by (intro power_increasing) auto
  finally show ?thesis by (simp add: strtoul16_def)
qed

section \<open>Bytes as two hexadecimal digits\<close>

lemma nibbles_or: "b < 16 \<Longrightarrow> push_bit 4 (of_nat a) OR of_nat b = (of_nat (16 * a + b) :: byte)"
proof -
  assume "b < 16"
  then have b: "take_bit 4 b = b" by (simp add: take_bit_nat_eq_self_iff)
  have "push_bit 4 a OR b = push_bit 4 a + b"
  proof (rule disjunctive_add_eq_or [symmetric], rule bit_eqI)
    fix n
    have "\<not> bit b n" if "4 \<le> n"
      using that b by (metis bit_take_bit_iff not_le)
    then show "bit (push_bit 4 a AND b) n \<longleftrightarrow> bit 0 n"
      by (auto simp: bit_and_iff bit_push_bit_iff_nat)
  qed
  moreover have "of_nat (push_bit 4 a OR b) = (push_bit 4 (of_nat a) OR of_nat b :: byte)"
    by (simp add: of_nat_or_eq push_bit_of_nat)
  moreover have "push_bit 4 a + b = 16 * a + b" by (simp add: push_bit_eq_mult)
  ultimately show ?thesis by metis
qed

lemma unhex_print: "print_02X b = [h, l] \<Longrightarrow> unhex h l = b"
proof -
  assume p: "print_02X b = [h, l]"
  have lt: "unat b div 16 < 16" using unsigned_less [where 'a = nat and w = b] by simp
  have "unhex h l = push_bit 4 (of_nat (unat b div 16)) OR of_nat (unat b mod 16)"
    using p lt by (auto simp: print_02X_def unhex_def hexdig_facts)
  also have "\<dots> = of_nat (16 * (unat b div 16) + unat b mod 16)"
    by (rule nibbles_or) simp
  also have "\<dots> = b" by simp
  finally show ?thesis .
qed

lemma print_02X_digits: "list_all is_xdigit (print_02X b)"
  using unsigned_less [where 'a = nat and w = b] by (simp add: print_02X_def hexdig_facts)

lemma print_02X_length [simp]: "length (print_02X b) = 2"
  by (simp add: print_02X_def)

definition hex_text :: "byte list \<Rightarrow> byte list" where
  "hex_text bs = concat (map print_02X bs)"

lemma hex_text_simps [simp]: "hex_text [] = []" "hex_text (b # bs) = print_02X b @ hex_text bs"
  by (simp_all add: hex_text_def)

lemma hex_text_length [simp]: "length (hex_text bs) = 2 * length bs"
  by (induction bs) auto

lemma hex_text_digits: "list_all is_xdigit (hex_text bs)"
  by (induction bs) (auto simp: print_02X_digits)

end
