(* ===== verification/Utils.thy ===== *)
theory Utils
  imports Frob_Types Numerals
begin

text \<open>
  \<open>utils.c\<close> and \<open>utils.h\<close>: checksum, names of the message types, the \<open>UNHEX\<close> macro,
  hexadecimal output, whitespace trimming and reading a whole file.
\<close>

section \<open>Wire constants\<close>

definition STX :: byte where "STX = 0x02"
definition ETX :: byte where "ETX = 0x03"
definition FS :: byte where "FS = 0x1C"
definition US :: byte where "US = 0x1F"
definition ACK :: byte where "ACK = 0x06"
definition NAK :: byte where "NAK = 0x15"

lemmas wire_defs = STX_def ETX_def FS_def US_def ACK_def NAK_def

section \<open>Return codes\<close>

text \<open>The values of Linux's \<open>errno.h\<close> for the codes the parsers return; 0 is success.\<close>

type_synonym errno = nat

definition EAGAIN :: errno where "EAGAIN = 11"
definition ENOSYS :: errno where "ENOSYS = 38"
definition ENOMSG :: errno where "ENOMSG = 42"
definition EBADMSG :: errno where "EBADMSG = 74"
definition ENOTRECOVERABLE :: errno where "ENOTRECOVERABLE = 131"

lemmas errno_defs = EAGAIN_def ENOSYS_def ENOMSG_def EBADMSG_def ENOTRECOVERABLE_def

section \<open>calculate_lrc\<close>

fun lrc_loop :: "byte \<Rightarrow> byte list \<Rightarrow> byte" where
  "lrc_loop lrc [] = lrc"
| "lrc_loop lrc (b # bs) = lrc_loop (lrc XOR b) bs"

definition calculate_lrc :: "byte list \<Rightarrow> byte outcome" where
  "calculate_lrc bs = c_assert (bs \<noteq> []) (Inr (lrc_loop 0 bs))"

lemma lrc_loop_append [simp]: "lrc_loop l (xs @ ys) = lrc_loop (lrc_loop l xs) ys"
  by (induction xs arbitrary: l) auto

lemma lrc_loop_xor: "lrc_loop (a XOR l) bs = a XOR lrc_loop l bs"
  by (induction bs arbitrary: l) (auto simp: xor.assoc)

lemma lrc_loop_start: "lrc_loop l bs = l XOR lrc_loop 0 bs"
  using lrc_loop_xor [of l 0 bs] by simp

lemma lrc_rev: "lrc_loop 0 (rev bs) = lrc_loop 0 bs"
proof (induction bs)
  case (Cons b bs)
  then show ?case using lrc_loop_start [of b bs] by (simp add: xor.commute)
qed simp

section \<open>Names of message types\<close>

definition class_to_char :: "msg_type \<Rightarrow> byte outcome" where
  "class_to_char m =
     (let c = m AND FROB_MESSAGE_CLASS_MASK in
      if c = FROB_T then Inr 0x54
      else if c = FROB_D then Inr 0x44
      else if c = FROB_S then Inr 0x53
      else if c = FROB_P then Inr 0x50
      else if c = FROB_I then Inr 0x49
      else if c = FROB_A then Inr 0x41
      else if c = FROB_K then Inr 0x4B
      else if c = FROB_M then Inr 0x4D
      else if c = FROB_L then Inr 0x4C
      else if c = FROB_B then Inr 0x42
      else Inl Assert_Failed)"

definition frob_type_to_string :: "msg_type \<Rightarrow> (byte \<times> byte) outcome" where
  "frob_type_to_string m =
     rbind (class_to_char m) (\<lambda>c. Inr (c, ucast (m AND FROB_MESSAGE_NUMBER_MASK) + 0x30))"

definition frob_trx_type_to_code :: "FrobTransactionType \<Rightarrow> byte" where
  "frob_trx_type_to_code t =
     (case t of TRANSACTION_TYPE_PAYMENT \<Rightarrow> 0x53 | TRANSACTION_TYPE_VOID \<Rightarrow> 0x43)"

lemma type_strings [frob_enum]:
  "frob_type_to_string 0x101 = Inr (0x54, 0x31)"
  "frob_type_to_string 0x102 = Inr (0x54, 0x32)"
  "frob_type_to_string 0x103 = Inr (0x54, 0x33)"
  "frob_type_to_string 0x104 = Inr (0x54, 0x34)"
  "frob_type_to_string 0x105 = Inr (0x54, 0x35)"
  "frob_type_to_string 0x114 = Inr (0x44, 0x34)"
  "frob_type_to_string 0x115 = Inr (0x44, 0x35)"
  "frob_type_to_string 0x221 = Inr (0x53, 0x31)"
  "frob_type_to_string 0x222 = Inr (0x53, 0x32)"
  "frob_type_to_string 0x231 = Inr (0x50, 0x31)"
  "frob_type_to_string 0x241 = Inr (0x49, 0x31)"
  "frob_type_to_string 0x251 = Inr (0x41, 0x31)"
  "frob_type_to_string 0x252 = Inr (0x41, 0x32)"
  "frob_type_to_string 0x560 = Inr (0x4B, 0x30)"
  "frob_type_to_string 0x561 = Inr (0x4B, 0x31)"
  "frob_type_to_string 0x191 = Inr (0x42, 0x31)"
  "frob_type_to_string 0x192 = Inr (0x42, 0x32)"
  "frob_type_to_string 0x193 = Inr (0x42, 0x33)"
  "frob_type_to_string 0x194 = Inr (0x42, 0x34)"
  by (simp_all add: frob_type_to_string_def class_to_char_def frob_mask_defs)

section \<open>UNHEX\<close>

text \<open>
  \<open>UNHEX(Dest, Start, End)\<close> decodes pairs of digits. \<open>after\<close> is the byte found at \<open>End\<close>: with
  an odd number of digits the last pair takes it as its second digit. No check compares the
  number of pairs with the size of \<open>Dest\<close>.
\<close>

fun unhex_pairs :: "byte list \<Rightarrow> byte \<Rightarrow> byte list" where
  "unhex_pairs [] after = []"
| "unhex_pairs [h] after = [unhex h after]"
| "unhex_pairs (h # l # hs) after = unhex h l # unhex_pairs hs after"

definition UNHEX :: "byte list \<Rightarrow> byte list \<Rightarrow> byte \<Rightarrow> byte list outcome" where
  "UNHEX dst digits after = write_at dst 0 (unhex_pairs digits after)"

lemma unhex_pairs_length: "length (unhex_pairs ds a) = (length ds + 1) div 2"
  by (induction ds a rule: unhex_pairs.induct) auto

lemma unhex_pairs_hex_text [simp]: "unhex_pairs (hex_text bs) a = bs"
proof (induction bs)
  case (Cons b bs)
  then show ?case by (simp add: print_02X_def unhex_print)
qed simp

lemma UNHEX_hex_text: "length bs = length dst \<Longrightarrow> UNHEX dst (hex_text bs) a = Inr bs"
  by (simp add: UNHEX_def write_at_def)

lemma UNHEX_overflow: "2 * length dst < length ds \<Longrightarrow> UNHEX dst ds a = Inl Out_Of_Bounds_Write"
  by (simp add: UNHEX_def write_at_def unhex_pairs_length)

section \<open>COPY with a destination that has a side effect\<close>

text \<open>
  \<open>COPY(Dest, Start, End)\<close> is \<open>memcpy(Dest, Start, min(End - Start, elementsof(Dest)))\<close>: it spells \<open>Dest\<close>
  once for \<open>memcpy\<close> and \<open>min\<close> spells \<open>elementsof(Dest)\<close>, which evaluates \<open>&Dest\<close>, for the comparison and
  again when that one is the smaller. With \<open>Dest = A[i++]\<close> every evaluation moves \<open>i\<close>. C leaves open which
  argument of a call is evaluated first, and so which value of \<open>i\<close> selects the element stored to; gcc,
  the Makefile's default compiler, evaluates the last argument first.
\<close>

datatype arg_order = Left_To_Right | Right_To_Left

definition argument_order :: arg_order where "argument_order = Right_To_Left"

definition min_evals :: "nat \<Rightarrow> nat \<Rightarrow> nat" where
  "min_evals n len = (if len < n then 1 else 2)"

text \<open>
  \<open>COPY(A[i++], c, fpc)\<close> for an array \<open>A\<close> of arrays of \<open>sz\<close> bytes, \<open>run\<close> being the bytes between \<open>c\<close> and \<open>fpc\<close>:
  the next \<open>i\<close> and the array. Bytes for an element that does not exist are a store outside the array.
\<close>

definition COPY_next :: "arg_order \<Rightarrow> nat \<Rightarrow> nat \<Rightarrow> byte list list \<Rightarrow> byte list \<Rightarrow> (nat \<times> byte list list) outcome" where
  "COPY_next ord sz i A run =
     (let k = min_evals sz (length run);
          slot = (case ord of Left_To_Right \<Rightarrow> i | Right_To_Left \<Rightarrow> i + k)
      in if run \<noteq> [] \<and> length A \<le> slot then Inl Out_Of_Bounds_Write
         else Inr (i + k + 1, A[slot := copy_into (A ! slot) run]))"

lemma COPY_next_cases:
  assumes "COPY_next ord sz i A run = r"
  obtains (outside) "r = Inl Out_Of_Bounds_Write" "run \<noteq> []" "length A \<le> i + 2"
  | (stored) j slot where "r = Inr (j, A[slot := copy_into (A ! slot) run])" "j \<in> {i + 2, i + 3}"
      "slot \<in> {i, i + 1, i + 2}" "run \<noteq> [] \<longrightarrow> slot < length A"
proof -
  define k where "k = min_evals sz (length run)"
  define slot where "slot = (case ord of Left_To_Right \<Rightarrow> i | Right_To_Left \<Rightarrow> i + k)"
  have k: "k = 1 \<or> k = 2" by (simp add: k_def min_evals_def)
  then have slot: "slot \<in> {i, i + 1, i + 2}" by (auto simp: slot_def split: arg_order.split)
  have r: "r = (if run \<noteq> [] \<and> length A \<le> slot then Inl Out_Of_Bounds_Write
      else Inr (i + k + 1, A[slot := copy_into (A ! slot) run]))"
    using assms unfolding COPY_next_def k_def slot_def Let_def by (rule sym)
  show thesis
  proof (cases "run \<noteq> [] \<and> length A \<le> slot")
    case True
    then show thesis using r slot by (intro outside) auto
  next
    case False
    then show thesis using r slot k by (intro stored [of "i + k + 1" slot]) auto
  qed
qed

lemma COPY_next_fault: "COPY_next ord sz i A run = Inl e \<Longrightarrow> e = Out_Of_Bounds_Write \<and> run \<noteq> [] \<and> length A \<le> i + 2"
  by (erule COPY_next_cases) auto

lemma COPY_next_Inr:
  "COPY_next ord sz i A run = Inr (j, B) \<Longrightarrow> i + 2 \<le> j \<and> j \<le> i + 3 \<and> length B = length A"
  by (erule COPY_next_cases) auto

section \<open>snprint_hex\<close>

text \<open>
  \<open>snprintf(buf + i * 2, 3, "%02X", bin[i])\<close> stores two digits and a null byte. The result is
  the memory and the returned size, which does not depend on whether anything was stored.
\<close>

fun hex_loop :: "byte list \<Rightarrow> nat \<Rightarrow> byte list \<Rightarrow> byte list outcome" where
  "hex_loop mem off [] = Inr mem"
| "hex_loop mem off (b # bs) =
     rbind (write_at mem off (print_02X b @ [0])) (\<lambda>mem'. hex_loop mem' (off + 2) bs)"

definition snprint_hex :: "nat \<Rightarrow> byte list \<Rightarrow> nat \<Rightarrow> byte list \<Rightarrow> (byte list \<times> nat) outcome" where
  "snprint_hex sbuf mem off bin =
     (if sbuf \<ge> length bin * 2 + 1
      then rbind (hex_loop mem off bin) (\<lambda>mem'. Inr (mem', length bin * 2))
      else Inr (mem, length bin * 2))"

lemma hex_loop_ok:
  assumes "off + 2 * length bs + 1 \<le> length mem"
  shows "\<exists>mem'. hex_loop mem off bs = Inr mem' \<and> length mem' = length mem
      \<and> take (off + 2 * length bs) mem' = take off mem @ hex_text bs"
  using assms
proof (induction bs arbitrary: mem off)
  case (Cons b bs)
  let ?m = "take off mem @ (print_02X b @ [0]) @ drop (off + 3) mem"
  have w: "write_at mem off (print_02X b @ [0]) = Inr ?m"
    using Cons.prems by (simp add: write_at_def)
  have "off + 2 + 2 * length bs + 1 \<le> length ?m" using Cons.prems by simp
  from Cons.IH [OF this] obtain mem' where m: "hex_loop ?m (off + 2) bs = Inr mem'"
    "length mem' = length ?m"
    "take (off + 2 + 2 * length bs) mem' = take (off + 2) ?m @ hex_text bs"
    by auto
  have "take (off + 2) ?m = take off mem @ print_02X b" using Cons.prems by simp
  with m w Cons.prems show ?case by (simp add: add.assoc)
qed simp

lemma hex_loop_frame:
  assumes "hex_loop mem off bs = Inr mem'"
  shows "length mem' = length mem \<and> take off mem' = take off mem"
  using assms
proof (induction bs arbitrary: mem off)
  case (Cons b bs)
  then obtain m where m: "write_at mem off (print_02X b @ [0]) = Inr m" "hex_loop m (off + 2) bs = Inr mem'"
    by (auto simp: rbind_eq_Inr)
  have "take off (take (off + 2) mem') = take off (take (off + 2) m)"
    using Cons.IH [OF m(2)] by simp
  then have "take off mem' = take off m" by (simp add: min_def)
  then show ?case using Cons.IH [OF m(2)] write_at_below [OF m(1)] write_at_length [OF m(1)] by simp
qed simp

text \<open>\<open>snprint_hex\<close> never returns less than zero, so that \<open>xsnprint_hex\<close> never exits on its own.\<close>

definition xsnprint_hex :: "nat \<Rightarrow> byte list \<Rightarrow> nat \<Rightarrow> byte list \<Rightarrow> (byte list \<times> nat) outcome" where
  "xsnprint_hex sbuf mem off bin =
     rbind (snprint_hex sbuf mem off bin) (\<lambda>(mem', ret). if int ret < 0 then Inl Exited else Inr (mem', ret))"

section \<open>snprintf\<close>

text \<open>
  \<open>snprintf(mem + off, s, ...)\<close> with the complete output \<open>txt\<close>. \<open>xsnprintf\<close> returns the length of
  the complete output also when it was cut; \<open>snprintfx\<close> exits then.
\<close>

definition snprintf_at :: "nat \<Rightarrow> byte list \<Rightarrow> nat \<Rightarrow> byte list \<Rightarrow> byte list outcome" where
  "snprintf_at s mem off txt = (if s = 0 then Inr mem else write_at mem off (take (s - 1) txt @ [0]))"

definition xsnprintf :: "nat \<Rightarrow> byte list \<Rightarrow> nat \<Rightarrow> byte list \<Rightarrow> (byte list \<times> nat) outcome" where
  "xsnprintf s mem off txt = rbind (snprintf_at s mem off txt) (\<lambda>mem'. Inr (mem', length txt))"

definition snprintfx :: "nat \<Rightarrow> byte list \<Rightarrow> nat \<Rightarrow> byte list \<Rightarrow> (byte list \<times> nat) outcome" where
  "snprintfx s mem off txt =
     rbind (snprintf_at s mem off txt) (\<lambda>mem'. if length txt < s then Inr (mem', length txt) else Inl Exited)"

section \<open>trim_whitespaces\<close>

text \<open>
  \<open>mem\<close> is the object that holds the string, \<open>s\<close> the string's offset in it. The second loop
  runs a cursor down from the last character until it meets \<open>p\<close> or a character that is no
  space; it can pass below \<open>s\<close>, and below the object.
\<close>

definition is_space :: "byte \<Rightarrow> bool" where
  "is_space b \<longleftrightarrow> b = 0x20 \<or> (0x09 \<le> b \<and> b \<le> 0x0D)"

function skip_spaces :: "byte list \<Rightarrow> nat \<Rightarrow> nat outcome" where
  "skip_spaces mem p =
     (if length mem \<le> p then Inl Out_Of_Bounds_Read
      else if is_space (mem ! p) then skip_spaces mem (Suc p) else Inr p)"
  by pat_completeness auto
termination
  by (relation "measure (\<lambda>(mem, p). length mem - p)") auto

definition strlen :: "byte list \<Rightarrow> nat \<Rightarrow> nat outcome" where
  "strlen mem p =
     (if 0 \<in> set (drop p mem) then Inr (length (cstr (drop p mem))) else Inl Out_Of_Bounds_Read)"

function trim_back :: "byte list \<Rightarrow> nat \<Rightarrow> int \<Rightarrow> byte list outcome" where
  "trim_back mem p e =
     (if e = int p then Inr mem
      else if e < 0 \<or> int (length mem) \<le> e then Inl Out_Of_Bounds_Read
      else if is_space (mem ! nat e) then trim_back (mem[nat e := 0]) p (e - 1)
      else Inr mem)"
  by pat_completeness auto
termination
  by (relation "measure (\<lambda>(mem, p, e). nat (e + 1))") auto

declare skip_spaces.simps [simp del] trim_back.simps [simp del]

definition trim_whitespaces :: "byte list \<Rightarrow> nat \<Rightarrow> (byte list \<times> nat) outcome" where
  "trim_whitespaces mem s =
     rbind (skip_spaces mem s) (\<lambda>p.
     rbind (strlen mem p) (\<lambda>l.
     rbind (trim_back mem p (int p + int l - 1)) (\<lambda>mem'.
     Inr (mem', p))))"

section \<open>Descriptor sets and system calls\<close>

text \<open>\<open>FD_SET\<close> with a descriptor outside the set's array, as -1 is, stores outside of it.\<close>

definition FD_SETSIZE :: int where "FD_SETSIZE = 1024"

definition FD_SET :: "int \<Rightarrow> int set \<Rightarrow> int set outcome" where
  "FD_SET fd S = (if 0 \<le> fd \<and> fd < FD_SETSIZE then Inr (insert fd S) else Inl Out_Of_Bounds_Write)"

text \<open>\<open>exitb\<close> prints the stack and exits; \<open>xmalloc\<close> aborts without memory (\<open>None\<close> is a null pointer).\<close>

definition exitb :: "'a outcome" where
  "exitb = Inl Exited"

definition xmalloc :: "'a option \<Rightarrow> 'a outcome" where
  "xmalloc p = (case p of None \<Rightarrow> Inl Aborted | Some a \<Rightarrow> Inr a)"

text \<open>\<open>syscall_exitf\<close>, behind the macros \<open>xread\<close>, \<open>xselect\<close> and the like: -1 ends the process.\<close>

definition syscall_exitf :: "int \<Rightarrow> int outcome" where
  "syscall_exitf ret = (if ret = - 1 then exitb else Inr ret)"

text \<open>
  \<open>set_nonblocking\<close>: \<open>flags\<close> is what \<open>F_GETFL\<close> answers, \<open>setfl\<close> what \<open>F_SETFL\<close> does; the result is
  the flags that were set.
\<close>

definition set_nonblocking :: "int \<Rightarrow> int \<Rightarrow> int outcome" where
  "set_nonblocking flags setfl =
     (if flags = - 1 then Inl Exited else if setfl = - 1 then Inl Exited else Inr (flags OR 0x800))"

section \<open>Reading a whole file\<close>

text \<open>
  The file behind a descriptor is the bytes not read yet and a schedule of how the kernel
  answers: a call may be interrupted, fail, or deliver fewer bytes than asked for (at least one
  when there are any); with the schedule used up it delivers all it can.
\<close>

datatype kernel_event = Interrupted | Fails | Short nat

type_synonym kernel_file = "byte list \<times> kernel_event list"

datatype read_result = Got "byte list" | EINTR | Failed

fun read_call :: "kernel_file \<Rightarrow> nat \<Rightarrow> read_result \<times> kernel_file" where
  "read_call (bs, []) n = (Got (take n bs), (drop n bs, []))"
| "read_call (bs, Interrupted # ev) n = (EINTR, (bs, ev))"
| "read_call (bs, Fails # ev) n = (Failed, (bs, ev))"
| "read_call (bs, Short k # ev) n =
     (let m = min n (Suc k) in (Got (take m bs), (drop m bs, ev)))"

lemma read_call_progress:
  "read_call f n = (r, f') \<Longrightarrow>
     length (snd f') < length (snd f)
   \<or> (snd f = [] \<and> snd f' = [] \<and> r = Got (take n (fst f)) \<and> fst f' = drop n (fst f))"
  by (induction f n rule: read_call.induct) (auto simp: Let_def)

text \<open>
  \<open>rread(fd, s, buf)\<close>: \<open>acc\<close> is what \<open>buf\<close> holds so far, \<open>r\<close> its length. \<open>None\<close> is the return
  value -1 of a read error.
\<close>

function rread :: "kernel_file \<Rightarrow> nat \<Rightarrow> byte list \<Rightarrow> byte list option" where
  "rread f s acc =
     (case read_call f (s - length acc) of
        (EINTR, f') \<Rightarrow> rread f' s acc
      | (Failed, f') \<Rightarrow> None
      | (Got l, f') \<Rightarrow> if l = [] then Some acc else rread f' s (acc @ l))"
  by pat_completeness auto
termination
  by (relation "measures [\<lambda>(f, s, acc). length (snd f), \<lambda>(f, s, acc). length (fst f)]")
    (auto dest!: sym [of "(_, _)" "read_call _ _"] read_call_progress
      simp: length_greater_0_conv [symmetric] simp del: length_greater_0_conv)

declare rread.simps [simp del]

datatype slurp_error = Read_Error | EFBIG | ENOENT

definition eread :: "kernel_file \<Rightarrow> nat \<Rightarrow> slurp_error + byte list" where
  "eread f s =
     (case rread f s [] of
        None \<Rightarrow> Inl Read_Error
      | Some bs \<Rightarrow> if length bs < s then Inr bs else Inl EFBIG)"

text \<open>\<open>slurp\<close> opens the file first (\<open>None\<close>: it does not exist); \<open>xslurp\<close> exits on any error.\<close>

definition slurp :: "kernel_file option \<Rightarrow> nat \<Rightarrow> slurp_error + byte list" where
  "slurp f s = (case f of None \<Rightarrow> Inl ENOENT | Some f \<Rightarrow> eread f s)"

definition xslurp :: "kernel_file option \<Rightarrow> nat \<Rightarrow> byte list outcome" where
  "xslurp f s = (case slurp f s of Inl _ \<Rightarrow> Inl Exited | Inr bs \<Rightarrow> Inr bs)"

end
