(* ===== verification/Ragel_Fields.thy ===== *)
theory Ragel_Fields
  imports Utils
begin

text \<open>
  The message bodies of \<open>fsm/body.rl\<close> are Ragel machines of one shape: a sequence of fields,
  each a run of characters of one class closed by a separator, the last ones optional. This
  theory gives that shape an executor with Ragel's semantics, the language it recognises, and
  the contract between a field and the text a serialiser writes for it.
\<close>

section \<open>Character classes of common.rl\<close>

definition rl_a :: "byte \<Rightarrow> bool" where
  "rl_a b \<longleftrightarrow> 0x20 \<le> b \<and> b \<le> 0x7E"

abbreviation rl_n :: "byte \<Rightarrow> bool" where
  "rl_n \<equiv> is_digit"

abbreviation rl_h :: "byte \<Rightarrow> bool" where
  "rl_h \<equiv> is_xdigit"

definition rl_none :: "byte \<Rightarrow> bool" where
  "rl_none b \<longleftrightarrow> False"

lemma class_facts [class_simps]:
  "\<not> rl_a FS" "\<not> rl_a US" "\<not> rl_n FS" "\<not> rl_n US" "\<not> rl_h FS" "\<not> rl_none b"
  "\<not> rl_a 0" "\<not> rl_a ETX" "\<not> rl_a STX" "\<not> rl_n ETX" "\<not> rl_n STX" "\<not> rl_h ETX" "\<not> rl_h STX"
  by (simp_all add: rl_a_def is_digit_def is_xdigit_def rl_none_def wire_defs)

lemma class_mono: "rl_n b \<Longrightarrow> rl_h b" "rl_n b \<Longrightarrow> rl_a b" "rl_h b \<Longrightarrow> rl_a b"
  unfolding is_xdigit_def rl_a_def is_digit_def word_le_nat_alt by auto

section \<open>Fields and the executor\<close>

text \<open>
  A field \<open>cls{lo,hi} >C sep @Act\<close>. The mark \<open>C\<close> is set at the first character of the run, or
  at the separator when the run is empty (Ragel embeds an entering action of a machine whose
  start state is final as a leaving action too), so the slice from the mark to the separator is
  the run itself: \<open>on_sep\<close> receives it. \<open>on_char\<close> is an action on the characters of the run.
\<close>

record 'd rl_field =
  cls :: "byte \<Rightarrow> bool"
  lo :: nat
  hi :: "nat option"
  sep :: byte
  on_char :: "byte \<Rightarrow> 'd \<Rightarrow> 'd"
  on_sep :: "byte list \<Rightarrow> 'd \<Rightarrow> 'd outcome"

definition room :: "nat option \<Rightarrow> nat \<Rightarrow> bool" where
  "room h n = (case h of None \<Rightarrow> True | Some m \<Rightarrow> n < m)"

text \<open>
  \<open>rl_exec fs run d inp\<close> runs the machine of the fields \<open>fs\<close>, \<open>run\<close> characters into the first
  one. It stops at the end of the input or, in the error state \<open>None\<close>, at the character that
  has no transition. The current state is the number of fields left and the run.
\<close>

type_synonym 'd rl_result = "(nat \<times> byte list) option \<times> 'd \<times> byte list"

fun rl_exec :: "'d rl_field list \<Rightarrow> byte list \<Rightarrow> 'd \<Rightarrow> byte list \<Rightarrow> 'd rl_result outcome" where
  "rl_exec fs run d [] = Inr (Some (length fs, run), d, [])"
| "rl_exec [] run d (b # bs) = Inr (None, d, b # bs)"
| "rl_exec (f # fs) run d (b # bs) =
     (if cls f b \<and> room (hi f) (length run) then rl_exec (f # fs) (run @ [b]) (on_char f b d) bs
      else if b = sep f \<and> lo f \<le> length run
      then rbind (on_sep f run d) (\<lambda>d'. rl_exec fs [] d' bs)
      else Inr (None, d, b # bs))"

text \<open>
  \<open>cs < first_final\<close> holds in the error state and in every state that is not final; with \<open>opt\<close>
  optional fields at the end, the final states are the boundaries before at most \<open>opt\<close> fields.
\<close>

definition rl_final :: "nat \<Rightarrow> (nat \<times> byte list) option \<Rightarrow> bool" where
  "rl_final opt cs = (case cs of None \<Rightarrow> False | Some (k, run) \<Rightarrow> run = [] \<and> k \<le> opt)"

lemma rl_final_simps [simp]:
  "rl_final opt None \<longleftrightarrow> False"
  "rl_final opt (Some (k, run)) \<longleftrightarrow> run = [] \<and> k \<le> opt"
  by (simp_all add: rl_final_def)

section \<open>The language of a field machine\<close>

definition fits :: "'d rl_field \<Rightarrow> byte list \<Rightarrow> bool" where
  "fits f w \<longleftrightarrow> list_all (cls f) w \<and> lo f \<le> length w \<and>
     (case hi f of None \<Rightarrow> True | Some m \<Rightarrow> length w \<le> m)"

definition separated :: "'d rl_field \<Rightarrow> bool" where
  "separated f \<longleftrightarrow> \<not> cls f (sep f)"

fun rl_text :: "'d rl_field list \<Rightarrow> byte list list \<Rightarrow> byte list" where
  "rl_text (f # fs) (w # ws) = w @ sep f # rl_text fs ws"
| "rl_text _ _ = []"

definition rl_lang :: "nat \<Rightarrow> 'd rl_field list \<Rightarrow> byte list \<Rightarrow> bool" where
  "rl_lang opt fs inp \<longleftrightarrow>
     (\<exists>ws. length ws \<le> length fs \<and> length fs \<le> length ws + opt \<and>
        list_all2 fits (take (length ws) fs) ws \<and> inp = rl_text fs ws)"

lemma rl_exec_run:
  assumes "list_all (cls f) w" "case hi f of None \<Rightarrow> True | Some m \<Rightarrow> length run + length w \<le> m"
  shows "rl_exec (f # fs) run d (w @ rest) = rl_exec (f # fs) (run @ w) (fold (on_char f) w d) rest"
  using assms
proof (induction w arbitrary: run d)
  case (Cons b w)
  then have "room (hi f) (length run)" by (auto simp: room_def split: option.splits)
  then show ?case using Cons by (auto split: option.splits)
qed simp

lemma rl_exec_field:
  assumes "fits f w" "separated f"
  shows "rl_exec (f # fs) [] d (w @ sep f # rest) =
    rbind (on_sep f w (fold (on_char f) w d)) (\<lambda>d'. rl_exec fs [] d' rest)"
proof -
  have "rl_exec (f # fs) [] d (w @ sep f # rest) =
      rl_exec (f # fs) w (fold (on_char f) w d) (sep f # rest)"
    using assms(1) rl_exec_run [of f w "[]" fs d "sep f # rest"]
    by (auto simp: fits_def split: option.splits)
  then show ?thesis using assms by (simp add: fits_def separated_def)
qed

text \<open>What the machine has read when it stops at a field boundary is a text of the language.\<close>

lemma rl_exec_sound_gen:
  assumes "rl_exec fs run d inp = Inr (Some (k, run'), d', rest)"
    and "fs \<noteq> [] \<Longrightarrow> list_all (cls (hd fs)) run \<and>
      (case hi (hd fs) of None \<Rightarrow> True | Some m \<Rightarrow> length run \<le> m)"
    and "run' = []" and "fs = [] \<Longrightarrow> run = []"
  shows "\<exists>ws. length ws + k = length fs \<and> list_all2 fits (take (length ws) fs) ws
    \<and> run @ inp = rl_text fs ws \<and> rest = []"
  using assms
proof (induction fs run d inp rule: rl_exec.induct)
  case (1 fs run d)
  then show ?case by (intro exI [of _ "[]"]) simp
next
  case (3 f fs run d b bs)
  show ?case
  proof (cases "cls f b \<and> room (hi f) (length run)")
    case True
    have "list_all (cls f) (run @ [b]) \<and>
        (case hi f of None \<Rightarrow> True | Some m \<Rightarrow> length (run @ [b]) \<le> m)"
      using True "3.prems"(2) by (auto simp: room_def split: option.splits)
    then show ?thesis using "3.IH"(1) [OF True] "3.prems" True by simp
  next
    case nrun: False
    have sep: "b = sep f \<and> lo f \<le> length run"
      using nrun "3.prems"(1) by (auto split: if_splits)
    obtain d1 where d1: "on_sep f run d = Inr d1" "rl_exec fs [] d1 bs = Inr (Some (k, run'), d', rest)"
      using nrun sep "3.prems"(1) by (auto simp: rbind_eq_Inr split: if_splits)
    have "\<exists>ws. length ws + k = length fs \<and> list_all2 fits (take (length ws) fs) ws
      \<and> [] @ bs = rl_text fs ws \<and> rest = []"
      by (rule "3.IH"(2) [OF nrun sep d1]) (auto simp: \<open>run' = []\<close> split: option.splits)
    then obtain ws where ws: "length ws + k = length fs" "list_all2 fits (take (length ws) fs) ws"
      "bs = rl_text fs ws" "rest = []" by auto
    moreover have "fits f run" using sep "3.prems"(2) by (simp add: fits_def)
    ultimately show ?thesis using sep by (intro exI [of _ "run # ws"]) simp
  qed
qed simp

lemma rl_exec_sound:
  assumes "rl_exec fs [] d inp = Inr (cs, d', rest)" "rl_final opt cs"
  shows "rl_lang opt fs inp"
proof -
  obtain k where cs: "cs = Some (k, [])" "k \<le> opt"
    using assms(2) by (cases cs) auto
  have empty: "case h of None \<Rightarrow> True | Some m \<Rightarrow> length ([] :: byte list) \<le> m" for h
    by (simp split: option.split)
  obtain ws where "length ws + k = length fs" "list_all2 fits (take (length ws) fs) ws"
    "inp = rl_text fs ws"
    using cs empty rl_exec_sound_gen [of fs "[]" d inp k "[]" d' rest] assms(1)
    by auto
  then show ?thesis using cs unfolding rl_lang_def by (intro exI [of _ ws]) simp
qed

lemma rl_exec_rest:
  "rl_exec fs run d inp = Inr (Some c, d', rest) \<Longrightarrow> rest = []"
  by (induction fs run d inp arbitrary: d' rule: rl_exec.induct)
     (auto simp: rbind_eq_Inr split: if_splits)

text \<open>Conversely the machine accepts every text of the language, unless an action faults.\<close>

lemma rl_exec_complete_gen:
  assumes "list_all separated fs" "list_all2 fits (take (length ws) fs) ws" "length ws \<le> length fs"
  shows "(\<exists>e. rl_exec fs [] d (rl_text fs ws) = Inl e)
    \<or> (\<exists>d'. rl_exec fs [] d (rl_text fs ws) = Inr (Some (length fs - length ws, []), d', []))"
  using assms
proof (induction fs ws arbitrary: d rule: rl_text.induct)
  case (1 f fs w ws)
  have "rl_exec (f # fs) [] d (rl_text (f # fs) (w # ws)) =
      rbind (on_sep f w (fold (on_char f) w d)) (\<lambda>d'. rl_exec fs [] d' (rl_text fs ws))"
    using "1.prems" by (simp add: rl_exec_field)
  then show ?case using 1 by (cases "on_sep f w (fold (on_char f) w d)") auto
qed auto

lemma rl_exec_complete:
  assumes "list_all separated fs" "rl_lang opt fs inp" "rl_exec fs [] d inp = Inr (cs, d', rest)"
  shows "rl_final opt cs \<and> rest = []"
proof -
  from assms(2) obtain ws where ws: "length ws \<le> length fs" "length fs \<le> length ws + opt"
    "list_all2 fits (take (length ws) fs) ws" "inp = rl_text fs ws"
    by (auto simp: rl_lang_def)
  then show ?thesis using rl_exec_complete_gen [OF assms(1) ws(3) ws(1), of d] assms(3) by auto
qed

lemma rl_exec_iff:
  assumes "list_all separated fs" "rl_exec fs [] d inp = Inr (cs, d', rest)"
  shows "rl_final opt cs \<longleftrightarrow> rl_lang opt fs inp"
  using rl_exec_sound [OF assms(2)] rl_exec_complete [OF assms(1) _ assms(2)] by blast

section \<open>Faults of a field machine\<close>

definition harmless :: "'d rl_field \<Rightarrow> bool" where
  "harmless f \<longleftrightarrow> (\<forall>run d. \<exists>d'. on_sep f run d = Inr d')"

lemma rl_exec_harmless:
  assumes "list_all harmless fs"
  shows "\<exists>res. rl_exec fs run d inp = Inr res"
  using assms
proof (induction fs run d inp rule: rl_exec.induct)
  case (3 f fs run d b bs)
  from 3(3) obtain d' where "on_sep f run d = Inr d'" by (auto simp: harmless_def)
  with 3 show ?case by auto
qed auto

text \<open>A machine faults only where an action of one of its fields does.\<close>

definition faults_only :: "fault \<Rightarrow> 'd rl_field \<Rightarrow> bool" where
  "faults_only e f \<longleftrightarrow> (\<forall>run d e'. on_sep f run d = Inl e' \<longrightarrow> e' = e)"

lemma rl_exec_fault:
  assumes "list_all (faults_only e) fs" "rl_exec fs run d inp = Inl e'"
  shows "e' = e"
  using assms
proof (induction fs run d inp rule: rl_exec.induct)
  case (3 f fs run d b bs)
  have sep: "\<And>e'. on_sep f run d = Inl e' \<Longrightarrow> e' = e"
    using "3.prems"(1) by (simp add: faults_only_def)
  show ?case
  proof (cases "cls f b \<and> room (hi f) (length run)")
    case True
    with 3 show ?thesis by simp
  next
    case False
    with 3 sep show ?thesis by (cases "on_sep f run d") (auto split: if_splits)
  qed
qed auto

lemma harmless_faults: "harmless f \<Longrightarrow> faults_only e f"
  by (auto simp: harmless_def faults_only_def) (metis sum.distinct(1))

section \<open>The contract of a field\<close>

text \<open>
  \<open>enc v\<close> is the text written for the value \<open>v\<close>, \<open>put v\<close> the effect its reading has on the
  structure. The law: the field accepts the text and its action has that effect.
\<close>

locale field_law =
  fixes f :: "'d rl_field"
    and enc :: "'v \<Rightarrow> byte list"
    and put :: "'v \<Rightarrow> 'd \<Rightarrow> 'd"
    and ok :: "'v \<Rightarrow> 'd \<Rightarrow> bool"
  assumes enc_fits: "ok v d \<Longrightarrow> fits f (enc v)"
    and sep_closes: "ok v d \<Longrightarrow> separated f"
    and act: "ok v d \<Longrightarrow> on_sep f (enc v) (fold (on_char f) (enc v) d) = Inr (put v d)"
begin

lemma exec:
  "ok v d \<Longrightarrow> rl_exec (f # fs) [] d (enc v @ sep f # rest) = rl_exec fs [] (put v d) rest"
  by (simp add: rl_exec_field enc_fits sep_closes act)

lemma exec_last: "ok v d \<Longrightarrow> rl_exec [f] [] d (enc v @ [sep f]) = Inr (Some (0, []), put v d, [])"
  by (simp add: exec)

end

section \<open>The kinds of field body.rl uses\<close>

text \<open>
  \<open>upd\<close> is the update function of the record field the action stores to.
\<close>

definition no_char :: "byte \<Rightarrow> 'd \<Rightarrow> 'd" where
  "no_char b d = d"

definition text_fld ::
  "(byte \<Rightarrow> bool) \<Rightarrow> nat \<Rightarrow> nat option \<Rightarrow> byte \<Rightarrow> ((byte list \<Rightarrow> byte list) \<Rightarrow> 'd \<Rightarrow> 'd) \<Rightarrow> 'd rl_field"
where
  "text_fld c l h s upd =
     \<lparr>cls = c, lo = l, hi = h, sep = s, on_char = no_char,
      on_sep = (\<lambda>run d. Inr (upd (\<lambda>dst. copy_into dst run) d))\<rparr>"

definition num_fld :: "(('n::len word \<Rightarrow> 'n word) \<Rightarrow> 'd \<Rightarrow> 'd) \<Rightarrow> 'd rl_field" where
  "num_fld upd =
     \<lparr>cls = rl_n, lo = 0, hi = None, sep = FS, on_char = no_char,
      on_sep = (\<lambda>run d. Inr (upd (\<lambda>_. of_nat (strtol10 run)) d))\<rparr>"

definition bool_fld :: "((bool \<Rightarrow> bool) \<Rightarrow> 'd \<Rightarrow> 'd) \<Rightarrow> 'd rl_field" where
  "bool_fld upd =
     \<lparr>cls = rl_n, lo = 1, hi = Some 1, sep = FS, on_char = no_char,
      on_sep = (\<lambda>run d. Inr (upd (\<lambda>_. take 1 run = [0x31]) d))\<rparr>"

definition hex_fld ::
  "('d \<Rightarrow> byte list) \<Rightarrow> ((byte list \<Rightarrow> byte list) \<Rightarrow> 'd \<Rightarrow> 'd) \<Rightarrow> 'd rl_field" where
  "hex_fld get upd =
     \<lparr>cls = rl_h, lo = 0, hi = None, sep = FS, on_char = no_char,
      on_sep = (\<lambda>run d. rbind (UNHEX (get d) run FS) (\<lambda>bs. Inr (upd (\<lambda>_. bs) d)))\<rparr>"

definition fs_fld :: "'d rl_field" where
  "fs_fld = \<lparr>cls = rl_none, lo = 0, hi = None, sep = FS, on_char = no_char,
     on_sep = (\<lambda>run d. Inr d)\<rparr>"

lemma fold_no_char [simp]: "fold no_char w d = d"
  by (induction w) (auto simp: no_char_def)

lemma fld_sel [simp]:
  "sep (text_fld c l h s upd) = s" "sep (num_fld updn) = FS" "sep (bool_fld updb) = FS"
  "sep (hex_fld get upd) = FS" "sep fs_fld = FS"
  by (simp_all add: text_fld_def num_fld_def bool_fld_def hex_fld_def fs_fld_def)

lemma fld_separated [simp]:
  "separated (text_fld c l h s upd) \<longleftrightarrow> \<not> c s" "separated (num_fld updn)"
  "separated (bool_fld updb)" "separated (hex_fld get upd)" "separated fs_fld"
  by (simp_all add: separated_def text_fld_def num_fld_def bool_fld_def hex_fld_def fs_fld_def class_simps)

lemma fld_harmless [simp]:
  "harmless (text_fld c l h s upd)" "harmless (num_fld updn)" "harmless (bool_fld updb)" "harmless fs_fld"
  by (simp_all add: harmless_def text_fld_def num_fld_def bool_fld_def fs_fld_def)

lemma fld_faults [simp]:
  "faults_only e (text_fld c l h s upd)" "faults_only e (num_fld updn)" "faults_only e (bool_fld updb)"
  "faults_only e fs_fld" "faults_only Out_Of_Bounds_Write (hex_fld get upd)"
proof -
  show "faults_only Out_Of_Bounds_Write (hex_fld get upd)"
    by (auto simp: faults_only_def hex_fld_def rbind_def UNHEX_def write_at_def split: if_splits sum.splits)
qed (simp_all add: harmless_faults)

definition bool_text :: "bool \<Rightarrow> byte list" where
  "bool_text b = print_u (of_bool b)"

lemma bool_text_simps [simp]: "bool_text True = [0x31]" "bool_text False = [0x30]"
  by (simp_all add: bool_text_def print_u_def to_digits.simps decdig_def)

interpretation str: field_law "text_fld c l h s upd" "\<lambda>w. w" "\<lambda>w d. upd (\<lambda>dst. copy_into dst w) d"
  "\<lambda>w d. list_all c w \<and> l \<le> length w \<and> (case h of None \<Rightarrow> True | Some m \<Rightarrow> length w \<le> m) \<and> \<not> c s"
  for c l h s upd
  by unfold_locales (auto simp: text_fld_def fits_def separated_def)

interpretation num: field_law "num_fld upd" "print_u" "\<lambda>n d. upd (\<lambda>_. of_nat n) d" "\<lambda>n d. n < 2 ^ 63"
  for upd
  by unfold_locales (auto simp: num_fld_def fits_def separated_def class_simps strtol_print)

interpretation flag: field_law "bool_fld upd" "bool_text" "\<lambda>b d. upd (\<lambda>_. b) d" "\<lambda>b d. True" for upd
proof
  fix v :: bool
  show "fits (bool_fld upd) (bool_text v)"
    by (cases v) (auto simp: bool_fld_def fits_def is_digit_def)
  show "separated (bool_fld upd)" by simp
  fix d
  show "on_sep (bool_fld upd) (bool_text v) (fold (on_char (bool_fld upd)) (bool_text v) d) = Inr (upd (\<lambda>_. v) d)"
    by (cases v) (auto simp: bool_fld_def no_char_def)
qed

interpretation hex: field_law "hex_fld get upd" "hex_text" "\<lambda>bs d. upd (\<lambda>_. bs) d"
  "\<lambda>bs d. length bs = length (get d)" for get upd
  by unfold_locales
     (auto simp: hex_fld_def fits_def separated_def class_simps hex_text_digits UNHEX_hex_text)

lemma fs_fld_exec [simp]: "rl_exec (fs_fld # fs) [] d (FS # rest) = rl_exec fs [] d rest"
  by (simp add: fs_fld_def rl_none_def)

end
