(* ===== verification/Header.thy ===== *)
theory Header
  imports Ragel_Fields
begin

text \<open>
  \<open>fsm/header.rl\<close>: the token and the message type at the front of a message.
\<close>

section \<open>The automaton of the header\<close>

text \<open>
  \<open>h{1,6} fs >Token type fs >Type\<close>: the states count the token digits, then wait for the class
  letter, the number, and the closing separator.
\<close>

datatype header_cs = H_error | H_token nat | H_class | H_number byte | H_close | H_final

text \<open>The letters and numbers the grammar \<open>type\<close> allows: A1 only, no class I.\<close>

definition letter_ok :: "byte \<Rightarrow> bool" where
  "letter_ok c \<longleftrightarrow> c \<in> {0x54, 0x53, 0x41, 0x44, 0x50, 0x4B, 0x4D, 0x4C, 0x42}"

definition number_ok :: "byte \<Rightarrow> byte \<Rightarrow> bool" where
  "number_ok c n \<longleftrightarrow>
     (if c = 0x54 then 0x31 \<le> n \<and> n \<le> 0x35
      else if c = 0x53 then n = 0x31 \<or> n = 0x32
      else if c = 0x41 then n = 0x31
      else if c = 0x44 then is_digit n \<or> n = 0x41
      else if c = 0x50 then n = 0x31
      else if c = 0x4B then is_digit n
      else if c = 0x4D then n = 0x31
      else if c = 0x4C then n = 0x31
      else if c = 0x42 then 0x31 \<le> n \<and> n \<le> 0x34
      else False)"

text \<open>
  \<open>header_exec cs pos te ty inp\<close>: \<open>te\<close> and \<open>ty\<close> are the pointers \<open>token_end\<close> and \<open>type_end\<close>.
  The final state has no transition, so a message body stops the machine in its error state
  with the cursor on the first byte of the body.
\<close>

fun header_exec ::
  "header_cs \<Rightarrow> nat \<Rightarrow> nat option \<Rightarrow> nat option \<Rightarrow> byte list
     \<Rightarrow> header_cs \<times> nat \<times> nat option \<times> nat option"
where
  "header_exec cs pos te ty [] = (cs, pos, te, ty)"
| "header_exec cs pos te ty (b # bs) =
     (case cs of
        H_token n \<Rightarrow>
          if rl_h b \<and> n < 6 then header_exec (H_token (Suc n)) (Suc pos) te ty bs
          else if b = FS \<and> 1 \<le> n then header_exec H_class (Suc pos) (Some pos) ty bs
          else (H_error, pos, te, ty)
      | H_class \<Rightarrow>
          if letter_ok b then header_exec (H_number b) (Suc pos) te ty bs
          else (H_error, pos, te, ty)
      | H_number c \<Rightarrow>
          if number_ok c b then header_exec H_close (Suc pos) te ty bs
          else (H_error, pos, te, ty)
      | H_close \<Rightarrow>
          if b = FS then header_exec H_final (Suc pos) te (Some pos) bs
          else (H_error, pos, te, ty)
      | H_final \<Rightarrow> (H_error, pos, te, ty)
      | H_error \<Rightarrow> (H_error, pos, te, ty))"

section \<open>deserialize_type\<close>

definition get_class :: "byte \<Rightarrow> msg_type" where
  "get_class c =
     (if c = 0x54 then FROB_T
      else if c = 0x44 then FROB_D
      else if c = 0x53 then FROB_S
      else if c = 0x50 then FROB_P
      else if c = 0x49 then FROB_I
      else if c = 0x41 then FROB_A
      else if c = 0x4B then FROB_K
      else if c = 0x4D then FROB_M
      else if c = 0x4C then FROB_L
      else if c = 0x42 then FROB_B
      else 0)"

text \<open>
  The switch compares class and number with every enumerator of \<open>all_types\<close> stripped of its
  channel bits and returns the enumerator, 0 when none matches.
\<close>

definition deserialize_type :: "byte \<Rightarrow> byte \<Rightarrow> msg_type" where
  "deserialize_type cla sub =
     (let code = get_class cla OR ucast (hex2nibble sub)
      in case find (\<lambda>t. t AND NOT FROB_MESSAGE_CHANNEL_MASK = code) all_types of
           Some t \<Rightarrow> t
         | None \<Rightarrow> 0)"

section \<open>frob_header_extract\<close>

text \<open>
  The result is the return code, the header and the remaining input. The reads before
  \<open>type_end\<close> and the final assertion on \<open>strtoul\<close>'s end pointer are modelled.
\<close>

definition frob_header_extract ::
  "byte list \<Rightarrow> frob_header \<Rightarrow> (errno \<times> frob_header \<times> byte list) outcome" where
  "frob_header_extract inp hdr =
     (case header_exec (H_token 0) 0 None None inp of
        (cs, p, Some te, Some ty) \<Rightarrow>
          (let type = deserialize_type (inp ! (ty - 2)) (inp ! (ty - 1))
           in if hdr_type hdr \<noteq> 0 \<and> hdr_type hdr \<noteq> type then Inr (ENOMSG, hdr, drop p inp)
              else c_assert (te \<le> 6)
                (c_assert (length (takeWhile is_xdigit inp) = te)
                  (Inr (0, hdr\<lparr>hdr_type := type, hdr_token := of_nat (strtoul16 inp)\<rparr>, drop p inp))))
      | _ \<Rightarrow> Inr (EBADMSG, hdr, inp))"

section \<open>Facts\<close>

lemma header_exec_token:
  "list_all rl_h t \<Longrightarrow> n + length t \<le> 6 \<Longrightarrow>
   header_exec (H_token n) pos te ty (t @ rest) = header_exec (H_token (n + length t)) (pos + length t) te ty rest"
  by (induction t arbitrary: n pos) auto

definition header_text :: "byte list \<Rightarrow> byte \<Rightarrow> byte \<Rightarrow> byte list" where
  "header_text t c n = t @ [FS, c, n, FS]"

lemma header_exec_text:
  assumes "list_all rl_h t" "1 \<le> length t" "length t \<le> 6" "letter_ok c" "number_ok c n"
  shows "\<exists>cs. header_exec (H_token 0) 0 None None (header_text t c n @ rest) =
     (cs, length t + 4, Some (length t), Some (length t + 3))"
proof -
  have "\<exists>cs. header_exec H_final p te ty rest = (cs, p, te, ty)" for p te ty
    by (cases rest) auto
  then show ?thesis
    using assms header_exec_token [OF assms(1), of 0 0 None None "[FS, c, n, FS] @ rest"]
    by (simp add: header_text_def class_simps eval_nat_numeral)
qed

text \<open>A run that has seen the separator after the type has read exactly a header.\<close>

lemma header_exec_pointers:
  assumes "header_exec cs pos te None inp = (cs', p, te', Some ty)"
  shows "(case cs of
      H_token m \<Rightarrow> \<exists>t c n rest. inp = header_text t c n @ rest \<and> list_all rl_h t \<and> 1 \<le> m + length t
        \<and> (t = [] \<or> m + length t \<le> 6) \<and> letter_ok c \<and> number_ok c n \<and> te' = Some (pos + length t)
        \<and> ty = pos + length t + 3 \<and> p = ty + 1
    | H_class \<Rightarrow> \<exists>c n rest. inp = [c, n, FS] @ rest \<and> letter_ok c \<and> number_ok c n \<and> te' = te
        \<and> ty = pos + 2 \<and> p = ty + 1
    | H_number c \<Rightarrow> \<exists>n rest. inp = [n, FS] @ rest \<and> number_ok c n \<and> te' = te \<and> ty = pos + 1 \<and> p = ty + 1
    | H_close \<Rightarrow> \<exists>rest. inp = FS # rest \<and> te' = te \<and> ty = pos \<and> p = ty + 1
    | _ \<Rightarrow> False)"
  using assms
proof (induction inp arbitrary: cs pos te)
  case (Cons b bs)
  have final: "header_exec H_final p te ty xs = (cs', p', te', ty') \<longrightarrow> p' = p \<and> te' = te \<and> ty' = ty"
    for p te ty xs p' te' ty' cs'
    by (cases xs) auto
  show ?case
  proof (cases cs)
    case (H_token m)
    show ?thesis
    proof (cases "rl_h b \<and> m < 6")
      case True
      then have run: "header_exec (H_token (Suc m)) (Suc pos) te None bs = (cs', p, te', Some ty)"
        using Cons.prems H_token by simp
      from Cons.IH [OF run] obtain t c n rest where
        "bs = header_text t c n @ rest" "list_all rl_h t" "t = [] \<or> Suc m + length t \<le> 6"
        "letter_ok c" "number_ok c n" "te' = Some (Suc pos + length t)"
        "ty = Suc pos + length t + 3" "p = ty + 1"
        by auto
      then show ?thesis using True H_token
        by (auto simp: header_text_def intro!: exI [of _ "b # t"])
    next
      case False
      then have b: "b = FS" "1 \<le> m" and run: "header_exec H_class (Suc pos) (Some pos) None bs = (cs', p, te', Some ty)"
        using Cons.prems H_token by (auto split: if_splits)
      from Cons.IH [OF run] show ?thesis using b H_token
        by (auto simp: header_text_def intro!: exI [of _ "[]"])
    qed
  next
    case H_class
    then have b: "letter_ok b" and run: "header_exec (H_number b) (Suc pos) te None bs = (cs', p, te', Some ty)"
      using Cons.prems by (auto split: if_splits)
    from Cons.IH [OF run] show ?thesis using b H_class by auto
  next
    case (H_number c)
    then have b: "number_ok c b" and run: "header_exec H_close (Suc pos) te None bs = (cs', p, te', Some ty)"
      using Cons.prems by (auto split: if_splits)
    from Cons.IH [OF run] show ?thesis using b H_number by auto
  next
    case H_close
    then show ?thesis using Cons.prems final by (auto split: if_splits dest!: final [rule_format])
  qed (use Cons.prems in auto)
qed (auto split: header_cs.splits)

section \<open>Evaluating deserialize_type\<close>

lemma deserialize_types [frob_enum]:
  "deserialize_type 0x54 0x31 = 0x101"
  "deserialize_type 0x54 0x32 = 0x102"
  "deserialize_type 0x54 0x33 = 0x103"
  "deserialize_type 0x54 0x34 = 0x104"
  "deserialize_type 0x54 0x35 = 0x105"
  "deserialize_type 0x44 0x34 = 0x114"
  "deserialize_type 0x44 0x35 = 0x115"
  "deserialize_type 0x53 0x31 = 0x221"
  "deserialize_type 0x53 0x32 = 0x222"
  "deserialize_type 0x50 0x31 = 0x231"
  "deserialize_type 0x49 0x31 = 0x241"
  "deserialize_type 0x41 0x31 = 0x251"
  "deserialize_type 0x41 0x32 = 0x252"
  "deserialize_type 0x44 0x30 = 0x110"
  "deserialize_type 0x44 0x31 = 0x111"
  "deserialize_type 0x44 0x36 = 0x416"
  "deserialize_type 0x44 0x32 = 0x112"
  "deserialize_type 0x44 0x33 = 0x113"
  "deserialize_type 0x44 0x37 = 0x417"
  "deserialize_type 0x44 0x38 = 0x418"
  "deserialize_type 0x44 0x39 = 0x419"
  "deserialize_type 0x44 0x41 = 0x41a"
  "deserialize_type 0x4B 0x30 = 0x560"
  "deserialize_type 0x4B 0x31 = 0x561"
  "deserialize_type 0x4B 0x32 = 0x562"
  "deserialize_type 0x4B 0x33 = 0x563"
  "deserialize_type 0x4B 0x34 = 0x564"
  "deserialize_type 0x4B 0x35 = 0x565"
  "deserialize_type 0x4B 0x36 = 0x566"
  "deserialize_type 0x4B 0x37 = 0x567"
  "deserialize_type 0x4B 0x38 = 0x568"
  "deserialize_type 0x4B 0x39 = 0x569"
  "deserialize_type 0x4D 0x31 = 0x371"
  "deserialize_type 0x4C 0x31 = 0x181"
  "deserialize_type 0x42 0x31 = 0x191"
  "deserialize_type 0x42 0x32 = 0x192"
  "deserialize_type 0x42 0x33 = 0x193"
  "deserialize_type 0x42 0x34 = 0x194"
  by (simp_all add: deserialize_type_def get_class_def hex2nibble_def all_types_def frob_enum frob_mask_defs)

text \<open>Every type the grammar admits is one of the enumerators.\<close>

lemma grammar_types:
  assumes "letter_ok c" "number_ok c n"
  shows "deserialize_type c n \<in> set all_types - {FROB_I1, FROB_A2}"
proof -
  have r5: "0x31 \<le> n \<and> n \<le> 0x35 \<longleftrightarrow> n \<in> {0x31, 0x32, 0x33, 0x34, 0x35}"
    unfolding word_le_nat_alt insert_iff empty_iff word_unat_eq_iff by simp presburger
  have r4: "0x31 \<le> n \<and> n \<le> 0x34 \<longleftrightarrow> n \<in> {0x31, 0x32, 0x33, 0x34}"
    unfolding word_le_nat_alt insert_iff empty_iff word_unat_eq_iff by simp presburger
  have rd: "is_digit n \<longleftrightarrow> n \<in> {0x30, 0x31, 0x32, 0x33, 0x34, 0x35, 0x36, 0x37, 0x38, 0x39}"
    unfolding is_digit_def word_le_nat_alt insert_iff empty_iff word_unat_eq_iff by simp presburger
  from assms show ?thesis
    unfolding letter_ok_def number_ok_def r5 r4 rd
    by (auto simp: deserialize_types all_types_def frob_type_values)
qed

section \<open>Correctness of frob_header_extract\<close>

lemma takeWhile_header: "list_all rl_h t \<Longrightarrow> takeWhile rl_h (header_text t c n @ rest) = t"
  by (simp add: header_text_def takeWhile_append2 list_all_iff class_simps)

lemma strtoul16_header: "list_all rl_h t \<Longrightarrow> strtoul16 (header_text t c n @ rest) = strtoul16 t"
  by (simp add: strtoul16_def takeWhile_header takeWhile_all)

lemma header_text_length [simp]: "length (header_text t c n) = length t + 4"
  by (simp add: header_text_def)

lemma header_text_type:
  "(header_text t c n @ rest) ! (length t + 1) = c" "(header_text t c n @ rest) ! (length t + 2) = n"
  by (simp_all add: header_text_def nth_append)

definition header_ok :: "byte list \<Rightarrow> byte \<Rightarrow> byte \<Rightarrow> bool" where
  "header_ok t c n \<longleftrightarrow> list_all rl_h t \<and> 1 \<le> length t \<and> length t \<le> 6 \<and> letter_ok c \<and> number_ok c n"

lemma header_extract_text:
  assumes "header_ok t c n"
  shows "frob_header_extract (header_text t c n @ rest) hdr =
    (if hdr_type hdr \<noteq> 0 \<and> hdr_type hdr \<noteq> deserialize_type c n then Inr (ENOMSG, hdr, rest)
     else Inr (0, hdr\<lparr>hdr_type := deserialize_type c n, hdr_token := of_nat (strtoul16 t)\<rparr>, rest))"
proof -
  obtain cs where "header_exec (H_token 0) 0 None None (header_text t c n @ rest) =
     (cs, length t + 4, Some (length t), Some (length t + 3))"
    using assms header_exec_text unfolding header_ok_def by blast
  then show ?thesis
    using assms header_text_type [of t c n rest]
    by (simp add: frob_header_extract_def header_ok_def takeWhile_header strtoul16_header Let_def)
qed

lemma header_extract_sound:
  assumes "frob_header_extract inp hdr = Inr (r, hdr', rest)" "r \<noteq> EBADMSG"
  shows "\<exists>t c n. inp = header_text t c n @ rest \<and> header_ok t c n"
proof -
  obtain cs p te ty where run: "header_exec (H_token 0) 0 None None inp = (cs, p, te, Some ty)"
    using assms by (auto simp: frob_header_extract_def split: prod.splits option.splits)
  from header_exec_pointers [OF run] obtain t c n rest' where
    t: "inp = header_text t c n @ rest'" "header_ok t c n"
    by (auto simp: header_ok_def)
  have "rest' = rest"
    using header_extract_text [OF t(2), of rest' hdr] assms t(1) by (auto split: if_splits)
  with t show ?thesis by blast
qed

lemma header_extract_total: "\<exists>r hdr' rest. frob_header_extract inp hdr = Inr (r, hdr', rest)"
proof (cases "\<exists>t c n rest. inp = header_text t c n @ rest \<and> header_ok t c n")
  case True
  then show ?thesis by (auto simp: header_extract_text)
next
  case False
  have "\<not> header_exec (H_token 0) 0 None None inp = (cs, p, te, Some ty)" for cs p te ty
  proof
    assume run: "header_exec (H_token 0) 0 None None inp = (cs, p, te, Some ty)"
    from header_exec_pointers [OF run] obtain t c n rest where
      "inp = header_text t c n @ rest" "header_ok t c n"
      by (auto simp: header_ok_def)
    with False show False by blast
  qed
  then show ?thesis
    by (auto simp: frob_header_extract_def split: prod.splits option.splits)
qed

end
