(* ===== verification/Body.thy ===== *)
theory Body
  imports Ragel_Fields
begin

text \<open>
  \<open>fsm/body.rl\<close>: one field machine per message body and \<open>frob_body_extract\<close>, which selects the
  machine by the message type. Each list of fields below is the concatenation that the
  corresponding \<open>main\<close> spells, with the number of optional fields at its end.
\<close>

section \<open>Running a machine and reporting\<close>

text \<open>
  \<open>write init; write exec; return cs < first_final ? err : 0\<close>. With \<open>err = 0\<close> it is the
  functions that return 0 whatever the machine did (T1, T2, D4).
\<close>

definition run_machine ::
  "nat \<Rightarrow> errno \<Rightarrow> 'd rl_field list \<Rightarrow> 'd \<Rightarrow> byte list \<Rightarrow> (errno \<times> 'd \<times> byte list) outcome" where
  "run_machine opt err fs d inp =
     rbind (rl_exec fs [] d inp) (\<lambda>(cs, d', rest). Inr (if rl_final opt cs then 0 else err, d', rest))"

section \<open>The fields of each body\<close>

text \<open>
  \<open>(a+ >C fs @Vendor) | fs\<close> runs no action on a bare separator; copying an empty slice changes
  nothing, so the field is a text field that may be empty.
\<close>

definition info_fields :: "((frob_device_info \<Rightarrow> frob_device_info) \<Rightarrow> 'd \<Rightarrow> 'd) \<Rightarrow> 'd rl_field list" where
  "info_fields within =
     [text_fld rl_a 1 None FS (\<lambda>f. within (info_version_update f)),
      text_fld rl_a 0 None FS (\<lambda>f. within (info_vendor_update f)),
      text_fld rl_a 0 None FS (\<lambda>f. within (info_device_type_update f)),
      text_fld rl_a 0 None FS (\<lambda>f. within (info_device_id_update f))]"

definition extract_t1 :: "byte list \<Rightarrow> (errno \<times> unit \<times> byte list) outcome" where
  "extract_t1 inp = run_machine 0 0 [fs_fld] () inp"

definition extract_t2 :: "byte list \<Rightarrow> (errno \<times> frob_device_info \<times> byte list) outcome" where
  "extract_t2 inp = run_machine 3 0 (info_fields (\<lambda>f. f)) zero_info inp"

definition extract_t3 :: "byte list \<Rightarrow> (errno \<times> unit \<times> byte list) outcome" where
  "extract_t3 inp = run_machine 1 EBADMSG [fs_fld] () inp"

text \<open>
  \<open>version*\<close> copies to \<open>supported_versions[i++]\<close> without comparing \<open>i\<close> with the array's size, and \<open>COPY\<close>
  moves \<open>i\<close> by two or three for each version.
\<close>

fun t4_exec ::
  "arg_order \<Rightarrow> nat \<Rightarrow> byte list \<Rightarrow> byte list list \<Rightarrow> byte list \<Rightarrow> (byte list list \<times> byte list) outcome" where
  "t4_exec ord i run vs [] = Inr (vs, [])"
| "t4_exec ord i run vs (b # bs) =
     (if rl_a b then t4_exec ord i (run @ [b]) vs bs
      else if b = FS \<and> run \<noteq> []
      then rbind (COPY_next ord 4 i vs run) (\<lambda>(i', vs'). t4_exec ord i' [] vs' bs)
      else Inr (vs, b # bs))"

definition zero_t4 :: "byte list list" where
  "zero_t4 = replicate 20 (zeros 4)"

definition extract_t4 :: "byte list \<Rightarrow> (errno \<times> byte list list \<times> byte list) outcome" where
  "extract_t4 inp = rbind (t4_exec argument_order 0 [] zero_t4 inp) (\<lambda>(vs, rest). Inr (0, vs, rest))"

definition extract_t5 :: "byte list \<Rightarrow> (errno \<times> byte list \<times> byte list) outcome" where
  "extract_t5 inp = run_machine 0 1 [text_fld rl_a 1 None FS (\<lambda>f. f)] (zeros 4) inp"

text \<open>The transaction type is \<open>'S'\<close> for a payment and \<open>'C'\<close> for a void.\<close>

definition trx_type_fld :: "frob_s1 rl_field" where
  "trx_type_fld =
     \<lparr>cls = (\<lambda>b. b = 0x53 \<or> b = 0x43), lo = 1, hi = Some 1, sep = FS, on_char = no_char,
      on_sep = (\<lambda>run d. Inr (d\<lparr>s1_transaction_type :=
         if take 1 run = [0x53] then TRANSACTION_TYPE_PAYMENT else TRANSACTION_TYPE_VOID\<rparr>))\<rparr>"

definition s1_fields :: "frob_s1 rl_field list" where
  "s1_fields =
     [trx_type_fld,
      text_fld rl_a 1 None FS s1_ecr_id_update,
      text_fld rl_a 1 None FS s1_payment_id_update,
      text_fld rl_n 1 None FS s1_amount_gross_update,
      text_fld rl_n 1 None FS s1_amount_net_update,
      text_fld rl_n 1 None FS s1_vat_update,
      text_fld rl_a 3 (Some 3) FS s1_currency_update,
      text_fld rl_n 1 None FS s1_cashback_update,
      text_fld rl_n 1 None FS s1_max_cashback_update]"

definition extract_s1 :: "byte list \<Rightarrow> (errno \<times> frob_s1 \<times> byte list) outcome" where
  "extract_s1 inp = run_machine 1 1 s1_fields zero_s1 inp"

definition s2_fields :: "frob_s2 rl_field list" where
  "s2_fields =
     [num_fld s2_error_update,
      hex_fld s2_card_token s2_card_token_update,
      text_fld rl_a 0 None FS s2_mid_update,
      text_fld rl_a 0 None FS s2_tid_update,
      text_fld rl_a 0 None FS s2_trx_id_update,
      text_fld rl_n 0 None FS s2_trx_amount_update,
      text_fld rl_n 0 None FS s2_cashback_update,
      text_fld rl_a 0 None FS s2_payment_method_update,
      text_fld rl_a 0 None FS s2_msg_update]"

definition extract_s2 :: "byte list \<Rightarrow> (errno \<times> frob_s2 \<times> byte list) outcome" where
  "extract_s2 inp = run_machine 4 ENOTRECOVERABLE s2_fields zero_s2 inp"

definition extract_d4 :: "byte list \<Rightarrow> (errno \<times> unit \<times> byte list) outcome" where
  "extract_d4 inp = run_machine 0 0 [fs_fld] () inp"

text \<open>The device type is one digit, stored when the digit is read.\<close>

definition topo_of :: "byte \<Rightarrow> FrobDeviceType" where
  "topo_of b =
     (if b = 0x30 then DEVICE_TYPE_ECR
      else if b = 0x31 then DEVICE_TYPE_EFT_WITH_PINPAD_BUILTIN
      else if b = 0x32 then DEVICE_TYPE_EFT_WITH_PINPAD_EXTERNAL
      else DEVICE_TYPE_EFT_WITH_PINPAD_PROGRAMMABLE)"

definition topo_fld :: "frob_d5 rl_field" where
  "topo_fld =
     \<lparr>cls = (\<lambda>b. b \<in> {0x30, 0x31, 0x32, 0x33}), lo = 1, hi = Some 1, sep = FS,
      on_char = (\<lambda>b d. d\<lparr>device_topo := topo_of b\<rparr>), on_sep = (\<lambda>run d. Inr d)\<rparr>"

definition d5_number_fields :: "frob_d5 rl_field list" where
  "d5_number_fields =
     [num_fld printer_cpl_update,
      num_fld printer_cpl2x_update,
      num_fld printer_cpl4x_update,
      num_fld printer_cpln_update,
      bool_fld printer_h2_update,
      bool_fld printer_h4_update,
      bool_fld printer_inv_update,
      num_fld printer_max_barcode_length_update,
      num_fld printer_max_qrcode_length_update,
      num_fld printer_max_bitmap_count_update,
      num_fld printer_max_bitmap_width_update,
      num_fld printer_max_bitmap_height_update,
      num_fld printer_aspect_ratio_update,
      num_fld printer_buffer_max_lines_update,
      num_fld display_lc_update,
      num_fld display_cpl_update]"

definition d5_key_fields :: "frob_d5 rl_field list" where
  "d5_key_fields =
     [text_fld rl_a 0 None US key_enter_update,
      text_fld rl_a 0 None US key_cancel_update,
      text_fld rl_a 0 None US key_check_update,
      text_fld rl_a 0 None US key_backspace_update,
      text_fld rl_a 0 None US key_delete_update,
      text_fld rl_a 0 None US key_up_update,
      text_fld rl_a 0 None US key_down_update,
      text_fld rl_a 0 None US key_left_update,
      text_fld rl_a 0 None US key_right_update,
      fs_fld]"

definition d5_flag_fields :: "frob_d5 rl_field list" where
  "d5_flag_fields =
     [topo_fld,
      bool_fld d5_nfc_update,
      bool_fld d5_ccr_update,
      bool_fld d5_mcr_update,
      bool_fld d5_bar_update]"

definition d5_fields :: "frob_d5 rl_field list" where
  "d5_fields = d5_number_fields @ d5_key_fields @ d5_flag_fields"

definition extract_d5 :: "byte list \<Rightarrow> (errno \<times> frob_d5 \<times> byte list) outcome" where
  "extract_d5 inp =
     run_machine 0 ENOTRECOVERABLE d5_fields zero_d5 inp"

definition extract_b1 :: "byte list \<Rightarrow> (errno \<times> frob_device_info \<times> byte list) outcome" where
  "extract_b1 inp = run_machine 0 ENOTRECOVERABLE (info_fields (\<lambda>f. f)) zero_info inp"

definition b2_fields :: "frob_b2 rl_field list" where
  "b2_fields =
     info_fields b2_info_update @
     [num_fld b2_result_update,
      hex_fld b2_modulus b2_modulus_update,
      hex_fld b2_exponent b2_exponent_update]"

definition extract_b2 :: "byte list \<Rightarrow> (errno \<times> frob_b2 \<times> byte list) outcome" where
  "extract_b2 inp = run_machine 2 ENOTRECOVERABLE b2_fields zero_b2 inp"

definition b3_fields :: "frob_b3 rl_field list" where
  "b3_fields = [hex_fld b3_kek b3_kek_update, hex_fld b3_kcv b3_kcv_update]"

definition extract_b3 :: "byte list \<Rightarrow> (errno \<times> frob_b3 \<times> byte list) outcome" where
  "extract_b3 inp = run_machine 0 ENOTRECOVERABLE b3_fields zero_b3 inp"

definition extract_b4 :: "byte list \<Rightarrow> (errno \<times> 64 word \<times> byte list) outcome" where
  "extract_b4 inp = run_machine 0 ENOTRECOVERABLE [num_fld (\<lambda>f. f)] 0 inp"

definition k0_fields :: "frob_k0 rl_field list" where
  "k0_fields = [num_fld k0_result_update, text_fld rl_a 0 None FS k0_output_update]"

definition extract_k0 :: "byte list \<Rightarrow> (errno \<times> frob_k0 \<times> byte list) outcome" where
  "extract_k0 inp = run_machine 1 ENOTRECOVERABLE k0_fields zero_k0 inp"

definition extract_k1 :: "byte list \<Rightarrow> (errno \<times> unit \<times> byte list) outcome" where
  "extract_k1 inp = run_machine 1 EBADMSG [fs_fld] () inp"

section \<open>frob_body_extract\<close>

definition store_body ::
  "('d \<Rightarrow> frob_body) \<Rightarrow> (errno \<times> 'd \<times> byte list) outcome \<Rightarrow> (errno \<times> frob_body \<times> byte list) outcome" where
  "store_body con r = rbind r (\<lambda>(e, d, rest). Inr (e, con d, rest))"

text \<open>
  Every caller hands in a zeroed union, which the machines fill; \<open>out\<close> is what it holds when no
  machine runs.
\<close>

definition frob_body_extract ::
  "msg_type \<Rightarrow> byte list \<Rightarrow> frob_body \<Rightarrow> (errno \<times> frob_body \<times> byte list) outcome" where
  "frob_body_extract t inp out =
     (if t = FROB_T1 then store_body (\<lambda>_. T1) (extract_t1 inp)
      else if t = FROB_T2 then store_body T2 (extract_t2 inp)
      else if t = FROB_T3 then store_body (\<lambda>_. T3) (extract_t3 inp)
      else if t = FROB_T4 then store_body T4 (extract_t4 inp)
      else if t = FROB_T5 then store_body T5 (extract_t5 inp)
      else if t = FROB_S1 then store_body S1 (extract_s1 inp)
      else if t = FROB_S2 then store_body S2 (extract_s2 inp)
      else if t = FROB_D4 then store_body (\<lambda>_. D4) (extract_d4 inp)
      else if t = FROB_D5 then store_body D5 (extract_d5 inp)
      else if t = FROB_B1 then store_body B1 (extract_b1 inp)
      else if t = FROB_B2 then store_body B2 (extract_b2 inp)
      else if t = FROB_B3 then store_body B3 (extract_b3 inp)
      else if t = FROB_B4 then store_body B4 (extract_b4 inp)
      else if t = FROB_K0 then store_body K0 (extract_k0 inp)
      else if t = FROB_K1 then store_body (\<lambda>_. K1) (extract_k1 inp)
      else Inr (ENOSYS, out, inp))"

lemma store_body_simps [simp]:
  "store_body con (Inl e) = Inl e" "store_body con (Inr (r, d, rest)) = Inr (r, con d, rest)"
  by (simp_all add: store_body_def)

lemma store_body_Inr:
  "store_body con x = Inr (r, b, rest) \<longleftrightarrow> (\<exists>d. x = Inr (r, d, rest) \<and> b = con d)"
  by (cases x) auto

lemma run_machine_Inr:
  "run_machine opt err fs d inp = Inr (r, d', rest) \<longleftrightarrow>
     (\<exists>cs. rl_exec fs [] d inp = Inr (cs, d', rest) \<and> r = (if rl_final opt cs then 0 else err))"
  by (auto simp: run_machine_def rbind_eq_Inr)

section \<open>The machines read exactly their grammar\<close>

lemma all_separated:
  "list_all separated (info_fields up)" "list_all separated s1_fields" "list_all separated s2_fields"
  "list_all separated d5_fields"
  "list_all separated b2_fields" "list_all separated b3_fields" "list_all separated k0_fields"
  by (simp_all add: info_fields_def s1_fields_def s2_fields_def d5_fields_def d5_number_fields_def
      d5_key_fields_def d5_flag_fields_def b2_fields_def b3_fields_def k0_fields_def class_simps)
     (simp_all add: separated_def trx_type_fld_def topo_fld_def wire_defs)

lemma run_machine_grammar:
  assumes "list_all separated fs" "run_machine opt err fs d inp = Inr (r, d', rest)" "err \<noteq> 0"
  shows "r = 0 \<longleftrightarrow> rl_lang opt fs inp"
  using assms rl_exec_iff [OF assms(1)] by (auto simp: run_machine_Inr split: if_splits)

lemma run_machine_consumes:
  assumes "list_all separated fs" "run_machine opt err fs d inp = Inr (0, d', rest)" "err \<noteq> 0"
  shows "rest = []"
  using assms by (auto simp: run_machine_Inr rl_final_def dest: rl_exec_rest split: if_splits option.splits)

section \<open>What can go wrong\<close>

lemma run_machine_fault:
  "list_all (faults_only e) fs \<Longrightarrow> run_machine opt err fs d inp = Inl e' \<Longrightarrow> e' = e"
  by (cases "rl_exec fs [] d inp") (auto simp: run_machine_def dest: rl_exec_fault)

lemma run_machine_harmless:
  "list_all harmless fs \<Longrightarrow> run_machine opt err fs d inp \<noteq> Inl e"
  using rl_exec_harmless [of fs "[]" d inp] by (auto simp: run_machine_def)

lemma own_flds [simp]: "harmless trx_type_fld" "harmless topo_fld"
  by (simp_all add: harmless_def trx_type_fld_def topo_fld_def)

lemma harmless_bodies:
  "list_all harmless (info_fields up)" "list_all harmless s1_fields" "list_all harmless k0_fields"
  "list_all harmless d5_fields"
  by (simp_all add: info_fields_def s1_fields_def d5_fields_def d5_number_fields_def
      d5_key_fields_def d5_flag_fields_def k0_fields_def)

lemma hex_bodies:
  "list_all (faults_only Out_Of_Bounds_Write) s2_fields"
  "list_all (faults_only Out_Of_Bounds_Write) b2_fields"
  "list_all (faults_only Out_Of_Bounds_Write) b3_fields"
  by (simp_all add: info_fields_def s2_fields_def b2_fields_def b3_fields_def)

lemma t4_exec_fault: "t4_exec ord i run vs inp = Inl e \<Longrightarrow> e = Out_Of_Bounds_Write"
proof (induction ord i run vs inp rule: t4_exec.induct)
  case (2 ord i run vs b bs)
  show ?case
  proof (cases "\<not> rl_a b \<and> b = FS \<and> run \<noteq> []")
    case True
    then show ?thesis
      using 2 by (cases "COPY_next ord 4 i vs run") (auto dest: COPY_next_fault)
  next
    case False
    then show ?thesis using 2 by (auto split: if_splits)
  qed
qed simp

lemmas extract_defs = extract_t1_def extract_t2_def extract_t3_def extract_t4_def extract_t5_def
  extract_s1_def extract_s2_def extract_d4_def extract_d5_def extract_b1_def extract_b2_def
  extract_b3_def extract_b4_def extract_k0_def extract_k1_def

lemma store_body_Inl: "store_body con x = Inl e \<longleftrightarrow> x = Inl e"
  by (cases x) (auto simp: store_body_def)

lemma body_extract_fault:
  assumes "frob_body_extract t inp out = Inl e"
  shows "e = Out_Of_Bounds_Write \<and> t \<in> {FROB_T4, FROB_S2, FROB_B2, FROB_B3}"
  using assms
  by (auto simp: frob_body_extract_def store_body_Inl extract_defs run_machine_harmless harmless_bodies rbind_def
      dest: t4_exec_fault run_machine_fault [OF hex_bodies(1)] run_machine_fault [OF hex_bodies(2)]
        run_machine_fault [OF hex_bodies(3)] split: if_splits sum.splits prod.splits)

end
