(* ===== verification/Logging.thy ===== *)
theory Logging
  imports Numerals
begin

text \<open>
  \<open>log.h\<close> and \<open>log.c\<close>: which log macro prints a line and what happens after it, and \<open>to_printable\<close>,
  which turns received bytes into a line of the log.
\<close>

section \<open>to_printable\<close>

text \<open>
  What is stored for one byte: a picture of a control character as three bytes of UTF-8, or the byte.
\<close>

definition picture :: "byte \<Rightarrow> byte list" where
  "picture c =
     (if c \<le> 0x20 then [0xE2, 0x90, 0x80 + c]
      else if c = 0x7F then [0xE2, 0x90, 0x80 + 0x31]
      else if c AND 0x80 \<noteq> 0 then [0xE2, 0x90, 0x36]
      else [c])"

text \<open>The loop: the assertion looks at the space before a byte is stored, not at the room for three.\<close>

fun printable_loop :: "nat \<Rightarrow> byte list \<Rightarrow> nat \<Rightarrow> byte list \<Rightarrow> (byte list \<times> nat) outcome" where
  "printable_loop s b off [] = Inr (b, off)"
| "printable_loop s b off (c # cs) =
     c_assert (off < s)
     (rbind (write_at b off (picture c)) (\<lambda>b'. printable_loop s b' (off + length (picture c)) cs))"

definition to_printable :: "byte list \<Rightarrow> nat \<Rightarrow> byte list \<Rightarrow> byte list outcome" where
  "to_printable inp s b = rbind (printable_loop s b 0 inp) (\<lambda>(b', off). write_at b' off [0])"

definition printable_text :: "byte list \<Rightarrow> byte list" where
  "printable_text inp = concat (map picture inp)"

lemma printable_text_simps [simp]:
  "printable_text [] = []" "printable_text (c # cs) = picture c @ printable_text cs"
  by (simp_all add: printable_text_def)

lemma picture_length: "0 < length (picture c)" "length (picture c) \<le> 3"
  by (simp_all add: picture_def)

lemma printable_text_length: "length (printable_text inp) \<le> 3 * length inp"
  using picture_length(2) by (induction inp) (auto intro: order_trans add_mono)

lemma printable_loop_ok:
  assumes "off + length (printable_text inp) \<le> length b" "s = length b"
  shows "printable_loop s b off inp =
    Inr (take off b @ printable_text inp @ drop (off + length (printable_text inp)) b, off + length (printable_text inp))"
  using assms
proof (induction inp arbitrary: b off)
  case (Cons c cs)
  let ?b = "take off b @ picture c @ drop (off + length (picture c)) b"
  have w: "write_at b off (picture c) = Inr ?b" using Cons.prems by (simp add: write_at_def)
  have "off < s" using Cons.prems picture_length(1) [of c] by (simp del: length_greater_0_conv)
  moreover have "printable_loop s ?b (off + length (picture c)) cs =
      Inr (take (off + length (picture c)) ?b @ printable_text cs
        @ drop (off + length (picture c) + length (printable_text cs)) ?b,
        off + length (picture c) + length (printable_text cs))"
    using Cons.prems by (intro Cons.IH) auto
  ultimately show ?case using w Cons.prems by (simp add: add.assoc add.commute add.left_commute)
qed simp

text \<open>Too little room: the assertion fails only when a picture ends exactly at the end of the buffer.\<close>

definition stops_at_end :: "nat \<Rightarrow> byte list \<Rightarrow> bool" where
  "stops_at_end n inp \<longleftrightarrow> (\<exists>k \<in> {0..<length inp}. length (printable_text (take k inp)) = n)"

lemma stops_at_end_Cons:
  "stops_at_end n (c # cs) \<longleftrightarrow> n = 0 \<or> (length (picture c) \<le> n \<and> stops_at_end (n - length (picture c)) cs)"
proof
  assume "stops_at_end n (c # cs)"
  then obtain k where k: "k < Suc (length cs)" "length (printable_text (take k (c # cs))) = n"
    by (auto simp: stops_at_end_def)
  then show "n = 0 \<or> (length (picture c) \<le> n \<and> stops_at_end (n - length (picture c)) cs)"
    by (cases k) (auto simp: stops_at_end_def)
next
  assume "n = 0 \<or> (length (picture c) \<le> n \<and> stops_at_end (n - length (picture c)) cs)"
  then show "stops_at_end n (c # cs)"
  proof
    assume "n = 0"
    then show ?thesis by (auto simp: stops_at_end_def intro!: bexI [of _ 0])
  next
    assume "length (picture c) \<le> n \<and> stops_at_end (n - length (picture c)) cs"
    then obtain k where "k < length cs" "length (printable_text (take k cs)) = n - length (picture c)"
      "length (picture c) \<le> n" by (auto simp: stops_at_end_def)
    then show ?thesis by (auto simp: stops_at_end_def intro!: bexI [of _ "Suc k"])
  qed
qed

lemma printable_loop_full:
  assumes "length b < off + length (printable_text inp)" "off \<le> length b" "s = length b"
  shows "printable_loop s b off inp =
    Inl (if stops_at_end (length b - off) inp then Assert_Failed else Out_Of_Bounds_Write)"
  using assms
proof (induction inp arbitrary: b off)
  case (Cons c cs)
  let ?b = "take off b @ picture c @ drop (off + length (picture c)) b"
  consider "off = length b" | "off < length b" "length b < off + length (picture c)"
    | "off < length b" "off + length (picture c) \<le> length b"
    using Cons.prems(2) by linarith
  then show ?case
  proof cases
    case 1
    then show ?thesis using Cons.prems(3) by (simp add: stops_at_end_Cons)
  next
    case 2
    then have "\<not> length (picture c) \<le> length b - off" by linarith
    then show ?thesis using 2 Cons.prems(3) by (simp add: stops_at_end_Cons write_at_def)
  next
    case 3
    then have w: "write_at b off (picture c) = Inr ?b" "length ?b = length b" by (simp_all add: write_at_def)
    have "printable_loop s ?b (off + length (picture c)) cs =
        Inl (if stops_at_end (length ?b - (off + length (picture c))) cs then Assert_Failed else Out_Of_Bounds_Write)"
      using Cons.prems(1,3) 3 by (intro Cons.IH) auto
    then show ?thesis using 3 w Cons.prems(3)
      by (simp add: stops_at_end_Cons le_diff_conv2 add.commute)
  qed
qed simp

text \<open>
  C35. \<open>to_printable\<close> in a buffer of the size it is told: it stores the text and the terminator when they
  fit, which is certain for three times the input and one. When they do not fit, the assertion catches it only
  if a character ends exactly at the end of the buffer; otherwise it stores behind the buffer, also
  for the terminator alone.
\<close>

theorem to_printable_exact:
  "to_printable inp (length b) b =
     (if length (printable_text inp) < length b
      then Inr (printable_text inp @ 0 # drop (Suc (length (printable_text inp))) b)
      else Inl (if stops_at_end (length b) inp then Assert_Failed else Out_Of_Bounds_Write))
   \<and> length (printable_text inp) \<le> 3 * length inp"
proof -
  let ?n = "length (printable_text inp)"
  have "\<not> stops_at_end (length b) inp" if "?n = length b"
  proof
    assume "stops_at_end (length b) inp"
    then obtain k where k: "k < length inp" "length (printable_text (take k inp)) = length b"
      by (auto simp: stops_at_end_def)
    have "printable_text inp = printable_text (take k inp) @ printable_text (drop k inp)"
      by (simp add: printable_text_def flip: concat_append map_append)
    moreover have "0 < length (printable_text (drop k inp))"
      using k(1) picture_length(1) by (cases "drop k inp") auto
    ultimately show False using k(2) that by simp
  qed
  moreover have "?n \<le> length b \<Longrightarrow> to_printable inp (length b) b = write_at (printable_text inp @ drop ?n b) ?n [0]"
    using printable_loop_ok [of 0 inp b "length b"] by (simp add: to_printable_def)
  moreover have "length b < ?n \<Longrightarrow> to_printable inp (length b) b =
      Inl (if stops_at_end (length b) inp then Assert_Failed else Out_Of_Bounds_Write)"
    using printable_loop_full [of b 0 inp "length b"] by (simp add: to_printable_def)
  ultimately show ?thesis
    using printable_text_length [of inp] by (cases ?n "length b" rule: linorder_cases) (auto simp: write_at_def)
qed

text \<open>What a line of the log says of the bytes below 128: each of them can be read back.\<close>

fun unpicture :: "byte list \<Rightarrow> byte list" where
  "unpicture (a # b # c # cs) =
     (if a = 0xE2 then (if c = 0xB1 then 0x7F else c - 0x80) # unpicture cs else a # unpicture (b # c # cs))"
| "unpicture cs = cs"

lemma unpicture_plain: "a \<noteq> 0xE2 \<Longrightarrow> unpicture (a # cs) = a # unpicture cs"
  by (cases "(a # cs)" rule: unpicture.cases) auto

lemma unpicture_picture:
  assumes "b AND 0x80 = 0"
  shows "unpicture (picture b @ cs) = b # unpicture cs"
proof -
  consider "b \<le> 0x20" | "\<not> b \<le> 0x20" "b = 0x7F" | "\<not> b \<le> 0x20" "b \<noteq> 0x7F" "b \<noteq> 0xE2"
    using assms by fastforce
  then show ?thesis
  proof cases
    case 1
    have "0x80 + b \<noteq> 0xB1"
    proof
      assume "0x80 + b = 0xB1"
      then have "b = 0xB1 - 0x80" by (metis add_diff_cancel_left')
      then show False using 1 by (simp add: word_le_nat_alt)
    qed
    then show ?thesis using 1 by (simp add: picture_def)
  next
    case 2
    then show ?thesis by (simp add: picture_def)
  next
    case 3
    then show ?thesis using assms by (simp add: picture_def unpicture_plain)
  qed
qed

text \<open>
  The log loses nothing of bytes below 128, whatever mixture of control characters and text they are: the
  line can be read back. (All bytes above look the same.)
\<close>

theorem log_line_reads_back:
  assumes "list_all (\<lambda>b. b AND 0x80 = 0) inp"
  shows "unpicture (printable_text inp) = inp"
  using assms by (induction inp) (simp_all add: unpicture_picture)

theorem log_line_witness: "unpicture (printable_text [0x02, 0x41, 0x7F, 0x03, 0x20]) = [0x02, 0x41, 0x7F, 0x03, 0x20]"
  using log_line_reads_back [of "[0x02, 0x41, 0x7F, 0x03, 0x20]"] by simp

section \<open>The log macros\<close>

text \<open>The levels of \<open>syslog.h\<close>.\<close>

definition LOG_EMERG :: nat where "LOG_EMERG = 0"
definition LOG_ALERT :: nat where "LOG_ALERT = 1"
definition LOG_ERR :: nat where "LOG_ERR = 3"
definition LOG_WARNING :: nat where "LOG_WARNING = 4"
definition LOG_INFO :: nat where "LOG_INFO = 6"
definition LOG_DEBUG :: nat where "LOG_DEBUG = 7"

lemmas log_level_defs = LOG_EMERG_def LOG_ALERT_def LOG_ERR_def LOG_WARNING_def LOG_INFO_def LOG_DEBUG_def

datatype log_macro =
    LOGDXP | LOGDX | LOGD | LOGIX | LOGI | LOGWX | LOGW | LOGEX | LOGE | EXITFX | EXITF | ABORTFX | ABORTF

datatype post_scriptum = Go_On | Exit_Unspec | Abort_Process

datatype log_method = Warnx | Warn | Errx | Err

text \<open>The table of \<open>log.h\<close>: what follows unconditionally, the prefix, the level and the function of \<open>err.h\<close>.\<close>

primrec log_row :: "log_macro \<Rightarrow> post_scriptum \<times> byte \<times> nat \<times> log_method" where
  "log_row LOGDXP = (Go_On, 0x44, LOG_DEBUG, Warnx)"
| "log_row LOGDX = (Go_On, 0x44, LOG_DEBUG, Warnx)"
| "log_row LOGD = (Go_On, 0x44, LOG_DEBUG, Warn)"
| "log_row LOGIX = (Go_On, 0x49, LOG_INFO, Warnx)"
| "log_row LOGI = (Go_On, 0x49, LOG_INFO, Warn)"
| "log_row LOGWX = (Go_On, 0x57, LOG_WARNING, Warnx)"
| "log_row LOGW = (Go_On, 0x57, LOG_WARNING, Warn)"
| "log_row LOGEX = (Go_On, 0x45, LOG_ERR, Warnx)"
| "log_row LOGE = (Go_On, 0x45, LOG_ERR, Warn)"
| "log_row EXITFX = (Exit_Unspec, 0x41, LOG_ALERT, Errx)"
| "log_row EXITF = (Exit_Unspec, 0x41, LOG_ALERT, Err)"
| "log_row ABORTFX = (Abort_Process, 0x46, LOG_EMERG, Warnx)"
| "log_row ABORTF = (Abort_Process, 0x46, LOG_EMERG, Warn)"

text \<open>
  Where the macro stands and who runs it. \<open>ls_error\<close> is \<open>strerror(errno)\<close>.
\<close>

record log_site =
  ls_prog :: "byte list"
  ls_file :: "byte list"
  ls_line :: nat
  ls_func :: "byte list"
  ls_error :: "byte list"

definition pad_left :: "nat \<Rightarrow> byte list \<Rightarrow> byte list" where
  "pad_left n w = replicate (n - length w) 0x20 @ w"

definition log_text :: "byte \<Rightarrow> log_site \<Rightarrow> byte list \<Rightarrow> byte list" where
  "log_text prefix site msg =
     [0x1F, prefix, 0x1F, 0x20] @ pad_left 32 (ls_file site) @ [0x1F] @ pad_left 4 (0x20 # print_u (ls_line site))
     @ [0x1F, 0x20] @ pad_left 24 (ls_func site) @ [0x1F, 0x20] @ msg @ [0x1E]"

text \<open>What the four functions of \<open>err.h\<close> print; \<open>err\<close> and \<open>errx\<close> then exit.\<close>

definition err_line :: "log_method \<Rightarrow> log_site \<Rightarrow> byte list \<Rightarrow> byte list" where
  "err_line m site txt =
     ls_prog site @ lit '': '' @ txt @ (if m = Warn \<or> m = Err then lit '': '' @ ls_error site else []) @ [0x0A]"

definition LOG_STORY :: "nat \<Rightarrow> nat \<Rightarrow> byte \<Rightarrow> log_method \<Rightarrow> log_site \<Rightarrow> byte list \<Rightarrow> byte list \<times> unit outcome" where
  "LOG_STORY g_log_level level prefix m site msg =
     (if level \<le> g_log_level
      then (err_line m site (log_text prefix site msg), if m = Err \<or> m = Errx then Inl Exited else Inr ())
      else ([], Inr ()))"

text \<open>The macro \<open>LOG\<close>: what is printed on standard error, and how it ends.\<close>

definition LOG :: "nat \<Rightarrow> log_macro \<Rightarrow> log_site \<Rightarrow> byte list \<Rightarrow> byte list \<times> unit outcome" where
  "LOG g_log_level lm site msg =
     (case log_row lm of (post, prefix, level, m) \<Rightarrow>
      case LOG_STORY g_log_level level prefix m site msg of (out, r) \<Rightarrow>
        (out, rbind r (\<lambda>_. case post of Go_On \<Rightarrow> Inr () | Exit_Unspec \<Rightarrow> Inl Exited | Abort_Process \<Rightarrow> Inl Aborted)))"

text \<open>
  At every log level the \<open>EXIT\<close> macros exit, the \<open>ABORT\<close> macros abort and the others go on: what is
  printed depends on the level, what happens does not. At the level the program sets every macro
  prints its message.
\<close>

theorem log_ends:
  "snd (LOG lvl lm site msg) =
     (if lm = EXITF \<or> lm = EXITFX then Inl Exited else if lm = ABORTF \<or> lm = ABORTFX then Inl Aborted else Inr ())
   \<and> (\<exists>before after. fst (LOG LOG_DEBUG lm site msg) = before @ msg @ after)"
proof
  show "snd (LOG lvl lm site msg) =
     (if lm = EXITF \<or> lm = EXITFX then Inl Exited else if lm = ABORTF \<or> lm = ABORTFX then Inl Aborted else Inr ())"
    by (cases lm) (simp_all add: LOG_def LOG_STORY_def)
  have "fst (LOG LOG_DEBUG lm site msg) =
      err_line (snd (snd (snd (log_row lm)))) site (log_text (fst (snd (log_row lm))) site msg)"
    by (cases lm) (simp_all add: LOG_def LOG_STORY_def log_level_defs)
  moreover have "\<exists>before after. err_line m site (log_text c site msg) = before @ msg @ after" for m c
    unfolding err_line_def log_text_def by (metis append.assoc)
  ultimately show "\<exists>before after. fst (LOG LOG_DEBUG lm site msg) = before @ msg @ after" by simp
qed

end
