(* ===== verification/Parser.thy ===== *)
theory Parser
  imports Header Body Logging
begin

text \<open>
  \<open>fsm/attrs.rl\<close> and \<open>parse_message\<close> of \<open>utils.c\<close>: header, body and additional attributes of one
  message.
\<close>

section \<open>frob_extract_additional_attributes\<close>

text \<open>
  \<open>(s+ @Unit fs)?\<close> with \<open>s = a* >C us\<close>: \<open>AT_open seen run\<close> is inside the list, \<open>run\<close> the
  characters of the current unit and \<open>seen\<close> whether a unit was closed already. The action compares \<open>i\<close>
  with the 19 elements before \<open>COPY((*out)[i++], c, fpc)\<close> moves it by two or three.
\<close>

datatype attrs_cs = AT_error | AT_open bool "byte list" | AT_final

fun attrs_exec ::
  "arg_order \<Rightarrow> attrs_cs \<Rightarrow> nat \<Rightarrow> byte list list \<Rightarrow> byte list \<Rightarrow> (attrs_cs \<times> byte list list \<times> byte list) outcome" where
  "attrs_exec ord cs i out [] = Inr (cs, out, [])"
| "attrs_exec ord cs i out (b # bs) =
     (case cs of
        AT_open seen run \<Rightarrow>
          if rl_a b then attrs_exec ord (AT_open seen (run @ [b])) i out bs
          else if b = US then
            (if i < 19
             then rbind (COPY_next ord 3 i out run) (\<lambda>(i', out'). attrs_exec ord (AT_open True []) i' out' bs)
             else attrs_exec ord (AT_open True []) i out bs)
          else if b = FS \<and> seen \<and> run = [] then attrs_exec ord AT_final i out bs
          else Inr (AT_error, out, b # bs)
      | _ \<Rightarrow> Inr (AT_error, out, b # bs))"

definition attrs_final :: "attrs_cs \<Rightarrow> bool" where
  "attrs_final cs \<longleftrightarrow> cs = AT_final \<or> cs = AT_open False []"

definition frob_extract_additional_attributes ::
  "byte list \<Rightarrow> byte list list \<Rightarrow> (errno \<times> byte list list \<times> byte list) outcome" where
  "frob_extract_additional_attributes inp out =
     rbind (attrs_exec argument_order (AT_open False []) 0 out inp) (\<lambda>(cs, out', rest).
       Inr (if attrs_final cs then 0 else ENOTRECOVERABLE, out', rest))"

lemma attrs_exec_rest:
  "attrs_exec ord cs i out inp = Inr (cs', out', rest) \<Longrightarrow> cs' \<noteq> AT_error \<Longrightarrow> rest = []"
  by (induction ord cs i out inp rule: attrs_exec.induct)
    (auto simp: rbind_eq_Inr split: attrs_cs.splits if_splits)

lemma attrs_consume:
  "frob_extract_additional_attributes inp out = Inr (0, out', rest) \<Longrightarrow> rest = []"
  by (auto simp: frob_extract_additional_attributes_def attrs_final_def errno_defs rbind_eq_Inr
      dest: attrs_exec_rest split: if_splits)

lemma attrs_none [simp]: "frob_extract_additional_attributes [] out = Inr (0, out, [])"
  by (simp add: frob_extract_additional_attributes_def attrs_final_def)

text \<open>
  The array overflows only when \<open>i\<close> has got to 17 or 18, which takes more than five units.
\<close>

lemma attrs_exec_fault:
  "attrs_exec ord cs i out inp = Inl e \<Longrightarrow> length out = 19 \<Longrightarrow>
   e = Out_Of_Bounds_Write \<and> 17 \<le> i + 3 * (count_list inp US - 1) \<and> 0 < count_list inp US"
proof (induction ord cs i out inp rule: attrs_exec.induct)
  case (2 ord cs i out b bs)
  show ?case
  proof (cases "\<exists>seen run. cs = AT_open seen run \<and> \<not> rl_a b \<and> b = US \<and> i < 19")
    case True
    then obtain seen run where cs: "cs = AT_open seen run" "\<not> rl_a b" "b = US" "i < 19" by blast
    show ?thesis
    proof (cases "COPY_next ord 3 i out run")
      case (Inl e')
      then show ?thesis using 2(5,6) cs by (auto dest: COPY_next_fault)
    next
      case (Inr r)
      obtain j out' where r: "r = (j, out')" by fastforce
      have b: "j \<le> i + 3" "length out' = 19" using COPY_next_Inr Inr r 2(6) by auto
      have "e = Out_Of_Bounds_Write \<and> 17 \<le> j + 3 * (count_list bs US - 1) \<and> 0 < count_list bs US"
        using 2(2) [OF cs Inr r [symmetric]] 2(5) cs Inr r b by simp
      then show ?thesis using cs b by (cases "count_list bs US") auto
    qed
  next
    case False
    then show ?thesis using 2 by (auto simp: class_simps split: attrs_cs.splits if_splits)
  qed
qed simp

section \<open>parse_message\<close>

text \<open>
  \<open>LOGDXP(char tmp[4*(pe-p)], "\t%s", PRETTY(p, pe, tmp))\<close>, which is printed at the default log level: the
  whole message made printable, in an array that \<open>elementsof\<close> asserts not to be empty.
\<close>

definition log_bytes :: "byte list \<Rightarrow> 'a outcome \<Rightarrow> 'a outcome" where
  "log_bytes inp k =
     (let tmp = zeros (4 * length inp) in
      c_assert (tmp \<noteq> []) (rbind (to_printable inp (length tmp) tmp) (\<lambda>_. k)))"

text \<open>
  The return value is 0 or -1, the latter behind the label \<open>bail\<close>, which logs the message; \<open>msg\<close> is
  written in place. A failing step leaves what was written before it, which no caller looks at. The
  assertion that the cursor has reached the end of the message is kept.
\<close>

definition parse_message :: "byte list \<Rightarrow> frob_msg \<Rightarrow> (int \<times> frob_msg) outcome" where
  "parse_message inp msg =
     rbind (frob_header_extract inp (msg_header msg)) (\<lambda>(e, hdr, cur).
       let msg = msg\<lparr>msg_header := hdr\<rparr> in
       if e \<noteq> 0 then log_bytes inp (Inr (- 1, msg)) else
     rbind (frob_body_extract (hdr_type hdr) cur (msg_body msg)) (\<lambda>(e, body, cur).
       let msg = msg\<lparr>msg_body := body\<rparr> in
       if e \<noteq> 0 then log_bytes inp (Inr (- 1, msg)) else
     rbind (frob_extract_additional_attributes cur (msg_attr msg)) (\<lambda>(e, attr, cur).
       let msg = msg\<lparr>msg_attr := attr\<rparr> in
       if e \<noteq> 0 then log_bytes inp (Inr (- 1, msg)) else
       c_assert (cur = []) (Inr (0, msg)))))"

text \<open>Four characters are always enough for one byte and the terminator; none are not.\<close>

lemma log_bytes_simps [simp]: "log_bytes [] k = Inl Assert_Failed" "inp \<noteq> [] \<Longrightarrow> log_bytes inp k = k"
proof -
  show "log_bytes [] k = Inl Assert_Failed" by (simp add: log_bytes_def zeros_def)
  assume "inp \<noteq> []"
  then have "length (printable_text inp) < 4 * length inp"
    using printable_text_length [of inp] by (cases inp) auto
  then have "\<exists>b. to_printable inp (4 * length inp) (zeros (4 * length inp)) = Inr b"
    using printable_loop_ok [of 0 inp "zeros (4 * length inp)"] by (simp add: to_printable_def write_at_def)
  then show "log_bytes inp k = k" using \<open>inp \<noteq> []\<close> by (auto simp: log_bytes_def zeros_def)
qed

text \<open>The message \<open>{ .magic = FROB_MAGIC, .header.type = t }\<close> handed to the parser.\<close>

definition blank_msg :: "msg_type \<Rightarrow> frob_msg" where
  "blank_msg t = \<lparr>msg_magic = FROB_MAGIC, msg_header = \<lparr>hdr_type = t, hdr_token = 0\<rparr>,
     msg_body = T1, msg_attr = zero_attr\<rparr>"

lemma blank_msg_sel [simp]:
  "msg_magic (blank_msg t) = FROB_MAGIC" "msg_header (blank_msg t) = \<lparr>hdr_type = t, hdr_token = 0\<rparr>"
  "msg_body (blank_msg t) = T1" "msg_attr (blank_msg t) = zero_attr"
  by (simp_all add: blank_msg_def)

text \<open>
  What can go wrong, step by step. The final assertion never fails: attributes that parse have been
  read to the end. An empty message has no header and fails the assertion of the log line.
\<close>

lemma attributes_fault:
  "frob_extract_additional_attributes inp out = Inl e \<Longrightarrow> length out = 19 \<Longrightarrow>
   e = Out_Of_Bounds_Write \<and> 6 < count_list inp US"
  by (auto simp: frob_extract_additional_attributes_def rbind_def split: sum.splits
      dest!: attrs_exec_fault)

lemma parse_empty: "parse_message [] msg = Inl Assert_Failed"
proof -
  obtain r hdr rest where h: "frob_header_extract [] (msg_header msg) = Inr (r, hdr, rest)"
    using header_extract_total by blast
  have "r \<noteq> 0"
  proof
    assume "r = 0"
    then show False using header_extract_sound [OF h] by (auto simp: errno_defs header_text_def)
  qed
  then show ?thesis using h by (simp add: parse_message_def Let_def)
qed

lemma parse_message_fault:
  assumes "parse_message inp msg = Inl e" "inp \<noteq> []"
  obtains (body) hdr rest where "frob_header_extract inp (msg_header msg) = Inr (0, hdr, rest)"
      "frob_body_extract (hdr_type hdr) rest (msg_body msg) = Inl e"
  | (attrs) hdr rest b cur where "frob_header_extract inp (msg_header msg) = Inr (0, hdr, rest)"
      "frob_body_extract (hdr_type hdr) rest (msg_body msg) = Inr (0, b, cur)"
      "frob_extract_additional_attributes cur (msg_attr msg) = Inl e"
proof -
  obtain r hdr rest where h: "frob_header_extract inp (msg_header msg) = Inr (r, hdr, rest)"
    using header_extract_total [of inp "msg_header msg"] by auto
  then have "r = 0" using assms by (auto simp: parse_message_def Let_def split: if_splits)
  show thesis
  proof (cases "frob_body_extract (hdr_type hdr) rest (msg_body msg)")
    case (Inl e')
    then show thesis using assms(1) h \<open>r = 0\<close> by (intro body) (auto simp: parse_message_def Let_def)
  next
    case (Inr x)
    obtain e2 b cur where x: "x = (e2, b, cur)" by (cases x)
    have e2: "e2 = 0" using assms h \<open>r = 0\<close> Inr x by (auto simp: parse_message_def Let_def split: if_splits)
    have "ba = []" if "frob_extract_additional_attributes cur (msg_attr msg) = Inr (0, aa, ba)" for aa ba
      using that by (rule attrs_consume)
    then have "frob_extract_additional_attributes cur (msg_attr msg) = Inl e"
      using assms h \<open>r = 0\<close> Inr x e2
      by (cases "frob_extract_additional_attributes cur (msg_attr msg)")
        (auto simp: parse_message_def Let_def split: if_splits)
    then show thesis using h \<open>r = 0\<close> Inr x e2 by (intro attrs) simp_all
  qed
qed

end
