(* ===== verification/Frame.thy ===== *)
theory Frame
  imports Ragel_Fields
begin

text \<open>
  \<open>fsm/frame.rl\<close>: finding one frame, STX data ETX LRC, in the bytes received so far. The model
  keeps the automaton's state between calls, so that resuming on the next chunk of input is
  covered too.
\<close>

section \<open>The automaton\<close>

text \<open>
  The states of \<open>(any-stx)* frame any*\<close>; the accepting one, \<open>F_done\<close>, absorbs what follows the
  frame. ETX right after STX has no transition.
\<close>

datatype frame_cs = F_error | F_junk | F_stx | F_data | F_etx | F_done

record frame_fsm_state =
  fst_lrc :: byte
  fst_not_first :: bool
  fst_cs :: frame_cs
  fst_p :: nat
  fst_pe :: "nat option"

text \<open>
  \<open>start\<close> and \<open>end\<close> are the local pointers of \<open>frob_frame_process\<close>, as offsets; \<open>pos\<close> is the
  offset of the next byte. The last component is the variable \<open>error\<close>.
\<close>

type_synonym frame_run = "frame_cs \<times> byte \<times> nat \<times> nat option \<times> bool"

fun frame_exec :: "frame_cs \<Rightarrow> byte \<Rightarrow> nat \<Rightarrow> nat option \<Rightarrow> nat \<Rightarrow> byte list \<Rightarrow> frame_run" where
  "frame_exec cs lrc st en pos [] = (cs, lrc, st, en, False)"
| "frame_exec cs lrc st en pos (b # bs) =
     (case cs of
        F_error \<Rightarrow> (F_error, lrc, st, en, False)
      | F_junk \<Rightarrow> frame_exec (if b = STX then F_stx else F_junk) lrc st en (Suc pos) bs
      | F_stx \<Rightarrow>
          if b = ETX then (F_error, lrc, st, en, False)
          else frame_exec F_data (lrc XOR b) pos en (Suc pos) bs
      | F_data \<Rightarrow>
          if b = ETX then frame_exec F_etx (lrc XOR b) st (Some pos) (Suc pos) bs
          else frame_exec F_data (lrc XOR b) st en (Suc pos) bs
      | F_etx \<Rightarrow>
          if lrc \<noteq> b then (F_done, lrc, st, en, True)
          else frame_exec F_done lrc st en (Suc pos) bs
      | F_done \<Rightarrow> frame_exec F_done lrc st en (Suc pos) bs)"

definition frob_frame_init :: "frame_fsm_state \<Rightarrow> frame_fsm_state" where
  "frob_frame_init st = st\<lparr>fst_cs := F_junk, fst_lrc := 0\<rparr>"

text \<open>
  \<open>frob_frame_process(st)\<close> on the buffer \<open>buf\<close>: the input is between \<open>st->p\<close> and \<open>st->pe\<close>.
\<close>

definition frob_frame_process :: "byte list \<Rightarrow> frame_fsm_state \<Rightarrow> errno \<times> frame_fsm_state" where
  "frob_frame_process buf st =
     (let st1 = (if fst_not_first st then st else frob_frame_init st);
          p = fst_p st;
          inp = (case fst_pe st of None \<Rightarrow> [] | Some pe \<Rightarrow> take (pe - p) (drop p buf))
      in case frame_exec (fst_cs st1) (fst_lrc st1) p None p inp of
           (cs, lrc, start, en, err) \<Rightarrow>
             (if en = None then EAGAIN
              else if err then EBADMSG
              else if cs = F_error then ENOTRECOVERABLE
              else if cs = F_done then 0
              else EAGAIN,
              \<lparr>fst_lrc = lrc, fst_not_first = True, fst_cs = cs, fst_p = start, fst_pe = en\<rparr>))"

text \<open>A state as C's initialiser \<open>{.p = p, .pe = pe}\<close> makes it.\<close>

definition fresh_fsm :: "nat \<Rightarrow> nat \<Rightarrow> frame_fsm_state" where
  "fresh_fsm p pe =
     \<lparr>fst_lrc = 0, fst_not_first = False, fst_cs = F_error, fst_p = p, fst_pe = Some pe\<rparr>"

section \<open>Running the automaton over the parts of a frame\<close>

lemma frame_exec_junk:
  "STX \<notin> set xs \<Longrightarrow>
   frame_exec F_junk l st en pos (xs @ ys) = frame_exec F_junk l st en (pos + length xs) ys"
  by (induction xs arbitrary: pos) auto

lemma frame_exec_data:
  "ETX \<notin> set xs \<Longrightarrow>
   frame_exec F_data l st en pos (xs @ ys) =
   frame_exec F_data (lrc_loop l xs) st en (pos + length xs) ys"
  by (induction xs arbitrary: l pos) auto

lemma frame_exec_done: "frame_exec F_done l st en pos xs = (F_done, l, st, en, False)"
  by (induction xs arbitrary: pos) auto

lemma frame_exec_error: "frame_exec F_error l st en pos xs = (F_error, l, st, en, False)"
  by (cases xs) auto

lemma frame_exec_first:
  "d \<noteq> [] \<Longrightarrow> ETX \<notin> set d \<Longrightarrow>
   frame_exec F_stx l st en pos (d @ ys) =
   frame_exec F_data (lrc_loop l d) pos en (pos + length d) ys"
  by (cases d) (auto simp: frame_exec_data)

text \<open>A junk prefix, STX and the data; then what follows decides.\<close>

lemma frame_exec_body:
  assumes "STX \<notin> set junk" "d \<noteq> []" "ETX \<notin> set d"
  shows "frame_exec F_junk l st en pos (junk @ STX # d @ ys) =
    frame_exec F_data (lrc_loop l d) (pos + length junk + 1) en (pos + length junk + 1 + length d) ys"
  using assms by (simp add: frame_exec_junk frame_exec_first)

text \<open>Resuming: a run over two chunks is the run over their concatenation.\<close>

lemma frame_exec_append:
  "frame_exec cs l st en pos (xs @ ys) =
     (case frame_exec cs l st en pos xs of (cs', l', st', en', err) \<Rightarrow>
        if err \<or> cs' = F_error then (cs', l', st', en', err)
        else frame_exec cs' l' st' en' (pos + length xs) ys)"
proof (induction cs l st en pos xs rule: frame_exec.induct)
  case (1 cs lrc st en pos)
  then show ?case by (cases cs) (auto simp: frame_exec_error)
next
  case (2 cs lrc st en pos b bs)
  then show ?case by (cases cs) (auto split: prod.splits)
qed

section \<open>What a frame is\<close>

text \<open>
  The reference: skip to the first STX, take the data up to ETX, which must not be empty, and
  compare the byte after ETX with the exclusive or of data and ETX. The result is where the data
  starts and ends and whether the checksum is right; \<open>None\<close> when the frame is incomplete or
  empty.
\<close>

definition find_frame :: "byte list \<Rightarrow> (nat \<times> nat \<times> bool) option" where
  "find_frame inp =
     (let junk = takeWhile (\<lambda>b. b \<noteq> STX) inp;
          r = drop (length junk + 1) inp;
          d = takeWhile (\<lambda>b. b \<noteq> ETX) r;
          tail = drop (length d) r
      in if d = [] \<or> length tail < 2 then None
         else Some (length junk + 1, length junk + 1 + length d,
                    lrc_loop 0 (d @ [ETX]) = tail ! 1))"

lemma split_at_first:
  obtains "x \<notin> set xs"
        | us vs where "xs = us @ x # vs" "x \<notin> set us"
  by (metis split_list_first)

lemma takeWhile_first: "x \<notin> set us \<Longrightarrow> takeWhile (\<lambda>b. b \<noteq> x) (us @ x # vs) = us"
  by (induction us) auto

lemma takeWhile_absent: "x \<notin> set us \<Longrightarrow> takeWhile (\<lambda>b. b \<noteq> x) us = us"
  by (induction us) auto

lemma find_frame_body:
  assumes "STX \<notin> set junk" "ETX \<notin> set d" "d \<noteq> []"
  shows "find_frame (junk @ STX # d @ ETX # c # rest) =
    Some (length junk + 1, length junk + 1 + length d, lrc_loop 0 (d @ [ETX]) = c)"
  using assms by (simp add: find_frame_def takeWhile_first Let_def)

text \<open>The five ways an input can begin.\<close>

lemma frame_cases:
  obtains (no_stx) "STX \<notin> set inp"
    | (empty) junk r where "inp = junk @ STX # ETX # r" "STX \<notin> set junk"
    | (open_data) junk d where "inp = junk @ STX # d" "STX \<notin> set junk" "ETX \<notin> set d"
    | (no_lrc) junk d where "inp = junk @ STX # d @ [ETX]" "STX \<notin> set junk" "ETX \<notin> set d" "d \<noteq> []"
    | (whole) junk d c rest where "inp = junk @ STX # d @ ETX # c # rest" "STX \<notin> set junk"
        "ETX \<notin> set d" "d \<noteq> []"
proof (cases rule: split_at_first [of STX inp])
  case (2 junk r)
  show ?thesis
  proof (cases rule: split_at_first [of ETX r])
    case 1
    with 2 open_data show ?thesis by simp
  next
    case (2 d t)
    show ?thesis
    proof (cases "d = []")
      case True
      with 2 \<open>inp = junk @ STX # r\<close> \<open>STX \<notin> set junk\<close> empty show ?thesis by simp
    next
      case False
      show ?thesis
      proof (cases t)
        case Nil
        with False 2 \<open>inp = junk @ STX # r\<close> \<open>STX \<notin> set junk\<close> show ?thesis
          by (intro no_lrc [of junk d]) simp_all
      next
        case (Cons c rest)
        with False 2 \<open>inp = junk @ STX # r\<close> \<open>STX \<notin> set junk\<close> show ?thesis
          by (intro whole [of junk d c rest]) simp_all
      qed
    qed
  qed
qed (use no_stx in simp)

lemma frame_process_fresh:
  "frob_frame_process buf (fresh_fsm p pe) =
     (case frame_exec F_junk 0 p None p (take (pe - p) (drop p buf)) of
        (cs, lrc, start, en, err) \<Rightarrow>
          (if en = None then EAGAIN else if err then EBADMSG
           else if cs = F_error then ENOTRECOVERABLE else if cs = F_done then 0 else EAGAIN,
           \<lparr>fst_lrc = lrc, fst_not_first = True, fst_cs = cs, fst_p = start, fst_pe = en\<rparr>))"
  by (simp add: frob_frame_process_def fresh_fsm_def frob_frame_init_def Let_def)

lemmas frame_exec_parts = frame_exec_junk frame_exec_body frame_exec_first frame_exec_done

lemma frame_verdict:
  defines "run inp \<equiv> frame_exec F_junk 0 0 None 0 inp"
  shows "case find_frame inp of
      None \<Rightarrow> (\<exists>cs lrc st en. run inp = (cs, lrc, st, en, False) \<and> cs \<noteq> F_done \<and> (en \<noteq> None \<longrightarrow> cs = F_etx))
    | Some (s, e, ok) \<Rightarrow> (\<exists>lrc. run inp = (F_done, lrc, s, Some e, \<not> ok))"
proof (cases inp rule: frame_cases)
  case no_stx
  then show ?thesis
    using frame_exec_junk [of inp 0 0 None 0 "[]"]
    by (simp add: run_def find_frame_def takeWhile_absent Let_def)
next
  case (empty junk r)
  then show ?thesis
    by (simp add: run_def find_frame_def takeWhile_first Let_def frame_exec_junk)
next
  case (open_data junk d)
  then show ?thesis
    using frame_exec_first [of d 0 0 None "Suc (length junk)" "[]"]
    by (cases "d = []") (auto simp: run_def find_frame_def takeWhile_first takeWhile_absent Let_def frame_exec_junk)
next
  case (no_lrc junk d)
  then show ?thesis
    by (simp add: run_def find_frame_def takeWhile_first Let_def frame_exec_body)
next
  case (whole junk d c rest)
  then show ?thesis
    by (simp add: run_def find_frame_body frame_exec_body frame_exec_done)
qed

lemma process_find_frame:
  "(case find_frame inp of
      None \<Rightarrow> fst (frob_frame_process inp (fresh_fsm 0 (length inp))) = EAGAIN
    | Some (s, e, ok) \<Rightarrow>
        fst (frob_frame_process inp (fresh_fsm 0 (length inp))) = (if ok then 0 else EBADMSG)
      \<and> fst_p (snd (frob_frame_process inp (fresh_fsm 0 (length inp)))) = s
      \<and> fst_pe (snd (frob_frame_process inp (fresh_fsm 0 (length inp)))) = Some e)"
  using frame_verdict [of inp]
  by (auto simp: frame_process_fresh split: option.splits)

text \<open>An offset moves the answer along.\<close>

lemma frame_exec_shift:
  "frame_exec cs l (st + k) (map_option (\<lambda>e. e + k) en) (pos + k) xs =
     (case frame_exec cs l st en pos xs of (cs', l', st', en', err) \<Rightarrow>
        (cs', l', st' + k, map_option (\<lambda>e. e + k) en', err))"
proof (induction cs l st en pos xs rule: frame_exec.induct)
  case (2 cs lrc st en pos b bs)
  then show ?case by (cases cs) auto
qed simp

lemma frame_process_at:
  "(case find_frame (take (pe - p) (drop p buf)) of
      None \<Rightarrow> fst (frob_frame_process buf (fresh_fsm p pe)) = EAGAIN
    | Some (s, e, ok) \<Rightarrow>
        fst (frob_frame_process buf (fresh_fsm p pe)) = (if ok then 0 else EBADMSG)
      \<and> fst_p (snd (frob_frame_process buf (fresh_fsm p pe))) = p + s
      \<and> fst_pe (snd (frob_frame_process buf (fresh_fsm p pe))) = Some (p + e))"
  using frame_verdict [of "take (pe - p) (drop p buf)"]
    frame_exec_shift [of F_junk 0 0 p None 0 "take (pe - p) (drop p buf)"]
  by (auto simp: frame_process_fresh add.commute split: option.splits)

text \<open>An end that is reported lies in the input.\<close>

lemma frame_exec_end:
  "frame_exec cs l st en pos xs = (cs', l', st', Some e, err) \<Longrightarrow> en = Some e \<or> pos \<le> e"
proof (induction cs l st en pos xs rule: frame_exec.induct)
  case (2 cs lrc st en pos b bs)
  then show ?case by (cases cs) (auto split: if_splits)
qed simp

lemma frame_process_end:
  assumes "frob_frame_process buf f = (e, f')" "e \<noteq> EAGAIN"
  shows "\<exists>pe. fst_pe f' = Some pe \<and> fst_p f \<le> pe"
  using assms by (auto simp: frob_frame_process_def Let_def split: prod.splits if_splits dest!: frame_exec_end)

end
