(* ===== verification/Parser_Facts.thy ===== *)
theory Parser_Facts
  imports Parser Frame
begin

text \<open>
  What the parsers guarantee: the language they accept, the arrays they fill, the faults that are
  left, and how the frame finder behaves on input that arrives in pieces.
\<close>

section \<open>Names of message types\<close>

lemma hex_prefix_unique:
  assumes "t @ FS # xs = t' @ FS # ys" "list_all rl_h t" "list_all rl_h t'"
  shows "t = t' \<and> xs = ys"
proof -
  have "takeWhile rl_h (u @ FS # zs) = u" if "list_all rl_h u" for u zs
    using that by (simp add: takeWhile_append2 list_all_iff class_simps)
  from this [OF assms(2), of xs] this [OF assms(3), of ys] have "t = t'" by (simp add: assms(1))
  then show ?thesis using assms(1) by simp
qed

lemma header_rejects:
  assumes "list_all rl_h t" "\<not> (letter_ok c \<and> number_ok c n)"
  shows "\<exists>hdr' cur. frob_header_extract (header_text t c n @ rest) hdr = Inr (EBADMSG, hdr', cur)"
proof -
  obtain r hdr' cur where run: "frob_header_extract (header_text t c n @ rest) hdr = Inr (r, hdr', cur)"
    using header_extract_total by blast
  have "r = EBADMSG"
  proof (rule ccontr)
    assume "r \<noteq> EBADMSG"
    then obtain t' c' n' where "header_text t c n @ rest = header_text t' c' n' @ cur" and ok: "header_ok t' c' n'"
      using header_extract_sound [OF run] by blast
    then have "t @ FS # c # n # FS # rest = t' @ FS # c' # n' # FS # cur" by (simp add: header_text_def)
    then have "c = c' \<and> n = n'"
      using hex_prefix_unique [of t _ t'] assms(1) ok by (auto simp: header_ok_def)
    then show False using assms(2) ok by (simp add: header_ok_def)
  qed
  with run show ?thesis by blast
qed

text \<open>Three names have no place in the grammar: I1, A2 and the name of \<open>FROB_DA\<close>.\<close>

lemma printed_types:
  assumes "ty \<in> set all_types"
  shows "\<exists>c n. frob_type_to_string ty = Inr (c, n)
    \<and> (if ty \<in> {FROB_I1, FROB_A2, FROB_DA} then \<not> (letter_ok c \<and> number_ok c n)
       else letter_ok c \<and> number_ok c n \<and> deserialize_type c n = ty)"
proof -
  let ?P = "\<lambda>ty (c, n). if ty \<in> {FROB_I1, FROB_A2, FROB_DA} then \<not> (letter_ok c \<and> number_ok c n)
       else letter_ok c \<and> number_ok c n \<and> deserialize_type c n = ty"
  have "list_all (\<lambda>ty. case frob_type_to_string ty of Inl _ \<Rightarrow> False | Inr x \<Rightarrow> ?P ty x) all_types"
    by (simp add: all_types_def frob_type_values frob_type_to_string_def class_to_char_def frob_mask_defs
        letter_ok_def number_ok_def is_digit_def deserialize_type_def get_class_def hex2nibble_def)
  then have "case frob_type_to_string ty of Inl _ \<Rightarrow> False | Inr x \<Rightarrow> ?P ty x"
    using assms unfolding list_all_iff by blast
  then obtain c n where "frob_type_to_string ty = Inr (c, n)" "?P ty (c, n)"
    by (cases "frob_type_to_string ty") auto
  then show ?thesis by (intro exI [of _ c] exI [of _ n] conjI) simp_all
qed

text \<open>
  C27. In a header the name that \<open>frob_type_to_string\<close> writes for a message type is accepted by
  \<open>frob_header_extract\<close> and read back as the same type, for every type of the protocol but three, which
  are rejected with EBADMSG: I1 and A2, which the grammar leaves out, and \<open>FROB_DA\<close>, whose number is
  written as a colon.
\<close>

theorem type_names_read_back:
  assumes "ty \<in> set all_types" "list_all is_xdigit t" "1 \<le> length t" "length t \<le> 6"
  shows "\<exists>c n. frob_type_to_string ty = Inr (c, n)
    \<and> (if ty \<in> {FROB_I1, FROB_A2, FROB_DA}
       then (\<exists>hdr cur. frob_header_extract (t @ FS # c # n # FS # rest) \<lparr>hdr_type = 0, hdr_token = k\<rparr> = Inr (EBADMSG, hdr, cur))
       else frob_header_extract (t @ FS # c # n # FS # rest) \<lparr>hdr_type = 0, hdr_token = k\<rparr> =
         Inr (0, \<lparr>hdr_type = ty, hdr_token = of_nat (strtoul16 t)\<rparr>, rest))"
proof -
  obtain c n where cn: "frob_type_to_string ty = Inr (c, n)"
    "if ty \<in> {FROB_I1, FROB_A2, FROB_DA} then \<not> (letter_ok c \<and> number_ok c n)
     else letter_ok c \<and> number_ok c n \<and> deserialize_type c n = ty"
    using printed_types [OF assms(1)] by blast
  have line: "header_text t c n @ rest = t @ FS # c # n # FS # rest" by (simp add: header_text_def)
  show ?thesis
  proof (cases "ty \<in> {FROB_I1, FROB_A2, FROB_DA}")
    case True
    then show ?thesis
      using cn header_rejects [of t c n rest "\<lparr>hdr_type = 0, hdr_token = k\<rparr>"] assms(2) unfolding line by auto
  next
    case False
    then have "header_ok t c n" using cn assms by (simp add: header_ok_def)
    then show ?thesis
      using False cn header_extract_text [of t c n rest "\<lparr>hdr_type = 0, hdr_token = k\<rparr>"] unfolding line by auto
  qed
qed

theorem type_names_witness:
  "frob_header_extract (lit ''1F'' @ FS # lit ''D4'' @ [FS]) \<lparr>hdr_type = 0, hdr_token = 0\<rparr> =
     Inr (0, \<lparr>hdr_type = FROB_D4, hdr_token = 0x1F\<rparr>, [])
   \<and> (\<exists>hdr cur. frob_header_extract (lit ''1F'' @ FS # lit ''D:'' @ [FS]) \<lparr>hdr_type = 0, hdr_token = 0\<rparr> = Inr (EBADMSG, hdr, cur))"
proof -
  have t: "list_all is_xdigit (lit ''1F'')" "1 \<le> length (lit ''1F'')" "length (lit ''1F'') \<le> 6" "strtoul16 (lit ''1F'') = 0x1F"
    by (simp_all add: strtoul16_def is_xdigit_def is_digit_def hex2nibble_def of_digits_def)
  have "FROB_D4 \<in> set all_types" "FROB_DA \<in> set all_types" by (simp_all add: all_types_def)
  from type_names_read_back [OF this(1) t(1-3), of "[]" 0] type_names_read_back [OF this(2) t(1-3), of "[]" 0]
  show ?thesis using t(4)
    by (simp add: frob_type_to_string_def class_to_char_def frob_mask_defs frob_type_values)
qed

section \<open>The header\<close>

text \<open>
  C7. \<open>frob_header_extract\<close> accepts exactly the inputs that start with one to six hexadecimal digits,
  a separator, one of the type names of the grammar and a separator, provided the type is the
  expected one when the caller set one.
\<close>

theorem header_accepts_grammar:
  "(\<exists>hdr' rest. frob_header_extract inp hdr = Inr (0, hdr', rest)) \<longleftrightarrow>
   (\<exists>t c n rest. inp = header_text t c n @ rest \<and> header_ok t c n
      \<and> hdr_type hdr \<in> {0, deserialize_type c n})" (is "?l = ?r")
proof
  assume ?l
  then obtain hdr' rest where run: "frob_header_extract inp hdr = Inr (0, hdr', rest)" by blast
  then obtain t c n where t: "inp = header_text t c n @ rest" "header_ok t c n"
    using header_extract_sound [OF run] by (auto simp: errno_defs)
  then have "hdr_type hdr \<in> {0, deserialize_type c n}"
    using run header_extract_text [OF t(2), of rest hdr] by (auto simp: errno_defs split: if_splits)
  with t show ?r by blast
next
  assume ?r
  then show ?l by (auto simp: header_extract_text)
qed

text \<open>
  C18. What an accepted header says: the token is below \<open>2^24\<close>, and the type is one of the protocol's,
  never I1 or A2, which the grammar leaves out; a type set by the caller is kept.
\<close>

theorem header_values:
  assumes "frob_header_extract inp hdr = Inr (0, hdr', rest)"
  shows "unat (hdr_token hdr') < 2 ^ 24 \<and> hdr_type hdr' \<in> set all_types - {FROB_I1, FROB_A2}
    \<and> hdr_type hdr \<in> {0, hdr_type hdr'}"
proof -
  obtain t c n where t: "inp = header_text t c n @ rest" "header_ok t c n"
    using header_extract_sound [OF assms] by (auto simp: errno_defs)
  have v: "strtoul16 t < 2 ^ 24" using t(2) strtoul_bound by (simp add: header_ok_def)
  then have "unat (of_nat (strtoul16 t) :: 32 word) < 2 ^ 24"
    by (simp add: unat_of_nat le_less_trans [OF mod_less_eq_dividend])
  moreover have "deserialize_type c n \<in> set all_types - {FROB_I1, FROB_A2}"
    using t(2) grammar_types by (simp add: header_ok_def)
  ultimately show ?thesis
    using assms t header_extract_text [OF t(2), of rest hdr] by (auto simp: errno_defs split: if_splits)
qed

theorem header_values_witness:
  "frob_header_extract (lit ''1F'' @ FS # lit ''D4'' @ [FS]) \<lparr>hdr_type = 0, hdr_token = 0\<rparr> =
     Inr (0, \<lparr>hdr_type = FROB_D4, hdr_token = 0x1F\<rparr>, [])
   \<and> FROB_D4 \<in> set all_types - {FROB_I1, FROB_A2}"
proof -
  have "header_text (lit ''1F'') 0x44 0x34 @ [] = lit ''1F'' @ FS # lit ''D4'' @ [FS]"
    by (simp add: header_text_def)
  moreover have "header_ok (lit ''1F'') 0x44 0x34"
    by (simp add: header_ok_def letter_ok_def number_ok_def is_xdigit_def is_digit_def)
  moreover have "strtoul16 (lit ''1F'') = 0x1F"
    by (simp add: strtoul16_def is_xdigit_def is_digit_def hex2nibble_def of_digits_def)
  ultimately have run: "frob_header_extract (lit ''1F'' @ FS # lit ''D4'' @ [FS]) \<lparr>hdr_type = 0, hdr_token = 0\<rparr> =
      Inr (0, \<lparr>hdr_type = FROB_D4, hdr_token = 0x1F\<rparr>, [])"
    using header_extract_text [where t = "lit ''1F''" and c = "0x44" and n = "0x34" and rest = "[]"
      and hdr = "\<lparr>hdr_type = 0, hdr_token = 0\<rparr>"]
    by (simp add: frob_enum)
  then show ?thesis using header_values [OF run] by simp
qed

section \<open>Bodies\<close>

text \<open>
  The texts the protocol's fields consist of, what a character array holds after a text was copied to
  it, and fields written one after the other.
\<close>

definition is_text :: "byte list \<Rightarrow> bool" where
  "is_text w \<longleftrightarrow> w \<noteq> [] \<and> (\<forall>b \<in> set w. 0x20 \<le> b \<and> b \<le> 0x7E)"

definition is_number :: "byte list \<Rightarrow> bool" where
  "is_number w \<longleftrightarrow> w \<noteq> [] \<and> (\<forall>b \<in> set w. 0x30 \<le> b \<and> b \<le> 0x39)"

definition cut :: "nat \<Rightarrow> byte list \<Rightarrow> byte list" where
  "cut n w = pad n (take n w)"

definition fields :: "byte list list \<Rightarrow> byte list" where
  "fields ws = concat (map (\<lambda>w. w @ [FS]) ws)"

lemma fields_simps [simp]: "fields [] = []" "fields (w # ws) = w @ FS # fields ws"
  by (simp_all add: fields_def)

lemma copy_cut: "copy_into (zeros n) w = cut n w"
  by (simp add: copy_into_def zeros_def cut_def pad_def min_def)

lemma cut_nil [simp]: "cut n [] = zeros n"
  by (simp add: cut_def pad_def zeros_def)

lemma is_text_iff: "is_text w \<longleftrightarrow> w \<noteq> [] \<and> list_all rl_a w"
  by (simp add: is_text_def rl_a_def list_all_iff)

lemma is_number_iff: "is_number w \<longleftrightarrow> w \<noteq> [] \<and> list_all rl_n w"
  by (simp add: is_number_def is_digit_def list_all_iff)

lemma run_machine_texts:
  assumes "list_all separated fs" "list_all harmless fs" "err \<noteq> 0"
  shows "run_machine opt err fs d0 inp = Inr (0, d, rest) \<longleftrightarrow>
    (\<exists>ws. length ws \<le> length fs \<and> length fs \<le> length ws + opt \<and> list_all2 fits (take (length ws) fs) ws
       \<and> inp = rl_text fs ws \<and> rl_exec fs [] d0 inp = Inr (Some (length fs - length ws, []), d, rest) \<and> rest = [])"
    (is "?l \<longleftrightarrow> ?r")
proof
  assume ?l
  then obtain cs where cs: "rl_exec fs [] d0 inp = Inr (cs, d, rest)" "rl_final opt cs"
    using assms(3) by (auto simp: run_machine_Inr split: if_splits)
  obtain ws where ws: "length ws \<le> length fs" "length fs \<le> length ws + opt"
    "list_all2 fits (take (length ws) fs) ws" "inp = rl_text fs ws"
    using rl_exec_sound [OF cs] by (auto simp: rl_lang_def)
  have "rl_exec fs [] d0 inp = Inr (Some (length fs - length ws, []), d, rest) \<and> rest = []"
    using rl_exec_complete_gen [OF assms(1) ws(3) ws(1), of d0] cs(1) ws(4) by auto
  with ws show ?r by blast
next
  assume ?r
  then show ?l using assms(3) by (auto simp: run_machine_Inr)
qed

lemma fits_text: "fits (text_fld c l h s upd) w \<longleftrightarrow>
    list_all c w \<and> l \<le> length w \<and> (case h of None \<Rightarrow> True | Some m \<Rightarrow> length w \<le> m)"
  by (simp add: fits_def text_fld_def)

lemma exec_text_field:
  "fits (text_fld c l h s upd) w \<Longrightarrow> \<not> c s \<Longrightarrow>
   rl_exec (text_fld c l h s upd # fs) [] d (w @ s # rest) = rl_exec fs [] (upd (\<lambda>dst. copy_into dst w) d) rest"
  using str.exec [of c w l h s upd fs d rest] by (simp add: fits_text)

lemma fits_type: "fits trx_type_fld w \<longleftrightarrow> w = [0x53] \<or> w = [0x43]"
  by (cases w rule: remdups_adj.cases) (auto simp: fits_def trx_type_fld_def)

lemma exec_type:
  "c = 0x53 \<or> c = 0x43 \<Longrightarrow> rl_exec (trx_type_fld # fs) [] d (c # FS # rest) =
   rl_exec fs [] (d\<lparr>s1_transaction_type := if c = 0x53 then TRANSACTION_TYPE_PAYMENT else TRANSACTION_TYPE_VOID\<rparr>) rest"
  by (auto simp: trx_type_fld_def no_char_def wire_defs room_def)

lemma fits_num: "fits (num_fld upd) w \<longleftrightarrow> list_all rl_n w"
  by (simp add: fits_def num_fld_def)

lemma exec_num_field:
  assumes "list_all rl_n w"
  shows "rl_exec (num_fld upd # fs) [] d (w @ FS # rest) = rl_exec fs [] (upd (\<lambda>_. of_nat (strtol10 w)) d) rest"
proof -
  have "fits (num_fld upd) w" using assms by (simp add: fits_num)
  from rl_exec_field [OF this fld_separated(2), of fs d rest]
  have "rl_exec (num_fld upd # fs) [] d (w @ FS # rest) =
      rbind (on_sep (num_fld upd) w (fold (on_char (num_fld upd)) w d)) (\<lambda>d'. rl_exec fs [] d' rest)"
    by (simp only: fld_sel)
  then show ?thesis by (simp only: num_fld_def rl_field.simps fold_no_char rbind_simps)
qed

definition s1_of :: "byte \<Rightarrow> byte list \<Rightarrow> byte list \<Rightarrow> byte list \<Rightarrow> byte list \<Rightarrow> byte list \<Rightarrow> byte list \<Rightarrow> byte list \<Rightarrow> byte list \<Rightarrow> frob_s1" where
  "s1_of ty ecr pay gross net vat cur cash most =
     \<lparr>s1_transaction_type = (if ty = 0x53 then TRANSACTION_TYPE_PAYMENT else TRANSACTION_TYPE_VOID),
      s1_ecr_id = cut 20 ecr, s1_payment_id = cut 20 pay, s1_amount_gross = cut 12 gross, s1_amount_net = cut 12 net,
      s1_vat = cut 12 vat, s1_cashback = cut 12 cash, s1_max_cashback = cut 12 most, s1_currency = cut 3 cur\<rparr>"

definition s1_text :: "byte \<Rightarrow> byte list \<Rightarrow> byte list \<Rightarrow> byte list \<Rightarrow> byte list \<Rightarrow> byte list \<Rightarrow> byte list \<Rightarrow> byte list \<Rightarrow> bool" where
  "s1_text ty ecr pay gross net vat cur cash \<longleftrightarrow>
     ty \<in> {0x53, 0x43} \<and> is_text ecr \<and> is_text pay \<and> is_number gross \<and> is_number net \<and> is_number vat
     \<and> is_text cur \<and> length cur = 3 \<and> is_number cash"

lemma s1_exec:
  assumes "s1_text ty ecr pay gross net vat cur cash"
  shows "rl_exec s1_fields [] zero_s1 (fields [[ty], ecr, pay, gross, net, vat, cur, cash] @ inp) =
    rl_exec [text_fld rl_n 1 None FS s1_max_cashback_update] [] (s1_of ty ecr pay gross net vat cur cash []) inp"
  using assms
  by (simp add: s1_fields_def s1_text_def s1_of_def exec_type exec_text_field fits_text is_text_iff
      is_number_iff class_simps Suc_le_eq zero_s1_def copy_cut del: rl_exec.simps(3))

lemma s1_accepts:
  "extract_s1 inp = Inr (0, d, rest) \<longleftrightarrow> rest = [] \<and>
    (\<exists>ty ecr pay gross net vat cur cash most. s1_text ty ecr pay gross net vat cur cash
      \<and> (most = [] \<or> is_number most)
      \<and> inp = fields ([[ty], ecr, pay, gross, net, vat, cur, cash] @ (if most = [] then [] else [most]))
      \<and> d = s1_of ty ecr pay gross net vat cur cash most)" (is "?l \<longleftrightarrow> ?r")
proof
  assume ?l
  then obtain ws where ws: "length ws \<le> length s1_fields" "length s1_fields \<le> length ws + 1"
      "list_all2 fits (take (length ws) s1_fields) ws" "inp = rl_text s1_fields ws" "rest = []"
      "rl_exec s1_fields [] zero_s1 inp = Inr (Some (length s1_fields - length ws, []), d, rest)"
    unfolding extract_s1_def run_machine_texts [OF all_separated(2) harmless_bodies(2) one_neq_zero] by blast
  then have "length ws = 8 \<or> length ws = 9" by (auto simp: s1_fields_def)
  then obtain t ecr pay gross net vat cur cash more where
    w: "ws = [t, ecr, pay, gross, net, vat, cur, cash] @ more" "more = [] \<or> (\<exists>m. more = [m])"
    by (auto simp: numeral_eq_Suc length_Suc_conv)
  obtain ty where ty: "t = [ty]" "ty \<in> {0x53, 0x43}" using ws(3) w by (auto simp: s1_fields_def fits_type)
  have good: "s1_text ty ecr pay gross net vat cur cash"
    using ws(3) w ty by (auto simp: s1_fields_def s1_text_def fits_text is_text_iff is_number_iff)
  have inp: "inp = fields [[ty], ecr, pay, gross, net, vat, cur, cash] @ fields more"
    using ws(4) w ty by (auto simp: s1_fields_def) (simp_all add: trx_type_fld_def)
  show ?r
  proof (cases more)
    case Nil
    then have line: "inp = fields [[ty], ecr, pay, gross, net, vat, cur, cash]" using inp by simp
    then have "d = s1_of ty ecr pay gross net vat cur cash []"
      using ws(6) s1_exec [OF good, of "[]"] by simp
    with line have "([] = [] \<or> is_number [])
        \<and> inp = fields ([[ty], ecr, pay, gross, net, vat, cur, cash] @ (if [] = [] then [] else [[]]))
        \<and> d = s1_of ty ecr pay gross net vat cur cash []" by simp
    with good ws(5) show ?thesis by blast
  next
    case (Cons m more')
    then have m: "more = [m]" using w(2) by auto
    then have num: "is_number m" using ws(3) w by (auto simp: s1_fields_def fits_text is_number_iff)
    then have "rl_exec [text_fld rl_n 1 None FS s1_max_cashback_update] [] (s1_of ty ecr pay gross net vat cur cash []) (fields [m]) =
        Inr (Some (0, []), s1_of ty ecr pay gross net vat cur cash m, [])"
      by (simp add: exec_text_field fits_text is_number_iff class_simps Suc_le_eq s1_of_def copy_cut del: rl_exec.simps(3))
    then have "d = s1_of ty ecr pay gross net vat cur cash m"
      using ws(6) inp m s1_exec [OF good, of "fields [m]"] by simp
    then have "(m = [] \<or> is_number m)
        \<and> inp = fields ([[ty], ecr, pay, gross, net, vat, cur, cash] @ (if m = [] then [] else [m]))
        \<and> d = s1_of ty ecr pay gross net vat cur cash m" using inp m num by (simp add: is_number_def)
    with good ws(5) show ?thesis by blast
  qed
next
  assume ?r
  then obtain ty ecr pay gross net vat cur cash most where r: "rest = []" "s1_text ty ecr pay gross net vat cur cash"
      "most = [] \<or> is_number most" "d = s1_of ty ecr pay gross net vat cur cash most"
      "inp = fields ([[ty], ecr, pay, gross, net, vat, cur, cash] @ (if most = [] then [] else [most]))"
    by blast
  show ?l
  proof (cases "most = []")
    case True
    then show ?thesis using r s1_exec [OF r(2), of "[]"] by (simp add: extract_s1_def run_machine_Inr)
  next
    case False
    then have "is_number most" using r(3) by simp
    then show ?thesis using r False s1_exec [OF r(2), of "fields [most]"]
      by (simp add: extract_s1_def run_machine_Inr exec_text_field fits_text is_number_iff class_simps Suc_le_eq
          s1_of_def copy_cut del: rl_exec.simps(3))
  qed
qed

lemma k0_accepts:
  "extract_k0 inp = Inr (0, d, rest) \<longleftrightarrow> rest = [] \<and>
    (\<exists>res out. (\<forall>b \<in> set res. 0x30 \<le> b \<and> b \<le> 0x39) \<and> (\<forall>b \<in> set out. 0x20 \<le> b \<and> b \<le> 0x7E)
      \<and> (inp = fields [res, out] \<or> inp = fields [res] \<and> out = [])
      \<and> d = \<lparr>k0_result = of_nat (strtol10 res), k0_output = cut 100 out\<rparr>)" (is "?l \<longleftrightarrow> ?r")
proof -
  have cls: "(\<forall>b \<in> set w. 0x30 \<le> b \<and> b \<le> 0x39) \<longleftrightarrow> list_all rl_n w" "(\<forall>b \<in> set w. 0x20 \<le> b \<and> b \<le> 0x7E) \<longleftrightarrow> list_all rl_a w" for w
    by (simp_all add: list_all_iff rl_a_def is_digit_def)
  have run: "list_all rl_n res \<Longrightarrow> rl_exec k0_fields [] zero_k0 (fields [res] @ inp) =
      rl_exec [text_fld rl_a 0 None FS k0_output_update] [] \<lparr>k0_result = of_nat (strtol10 res), k0_output = zeros 100\<rparr> inp" for res inp
    by (simp add: k0_fields_def exec_num_field zero_k0_def del: rl_exec.simps(3))
  have out: "list_all rl_a out \<Longrightarrow> rl_exec [text_fld rl_a 0 None FS k0_output_update] [] \<lparr>k0_result = r, k0_output = zeros 100\<rparr> (fields [out]) =
      Inr (Some (0, []), \<lparr>k0_result = r, k0_output = cut 100 out\<rparr>, [])" for r out
    by (simp add: exec_text_field fits_text class_simps copy_cut del: rl_exec.simps(3))
  show ?thesis
  proof
    assume ?l
    then obtain ws where ws: "length ws \<le> length k0_fields" "length k0_fields \<le> length ws + 1"
        "list_all2 fits (take (length ws) k0_fields) ws" "inp = rl_text k0_fields ws" "rest = []"
        "rl_exec k0_fields [] zero_k0 inp = Inr (Some (length k0_fields - length ws, []), d, rest)"
      unfolding extract_k0_def using run_machine_texts [OF all_separated(7) harmless_bodies(3)]
      by (auto simp: errno_defs)
    then consider (one) res where "ws = [res]" | (two) res out where "ws = [res, out]"
      by (cases ws rule: remdups_adj.cases) (auto simp: k0_fields_def)
    then show ?r
    proof cases
      case one
      then have "list_all rl_n res" "inp = fields [res] @ []"
        using ws(3,4) by (auto simp: k0_fields_def fits_num)
      then show ?thesis using one ws(5,6) run [of res "[]"]
        by (intro conjI exI [of _ res] exI [of _ "[]"]) (simp_all add: cls)
    next
      case two
      then have c: "list_all rl_n res" "list_all rl_a out" "inp = fields [res] @ fields [out]"
        using ws(3,4) by (auto simp: k0_fields_def fits_num fits_text)
      then show ?thesis using two ws(5,6) run [of res "fields [out]"] out [of out "of_nat (strtol10 res)"]
        by (intro conjI exI [of _ res] exI [of _ out]) (simp_all add: cls)
    qed
  next
    assume ?r
    then obtain res o' where r: "rest = []" "list_all rl_n res" "list_all rl_a o'"
        "inp = fields [res] @ fields [o'] \<or> inp = fields [res] @ [] \<and> o' = []"
        "d = \<lparr>k0_result = of_nat (strtol10 res), k0_output = cut 100 o'\<rparr>"
      unfolding cls by auto
    then show ?l
      using run [of res "fields [o']"] run [of res "[]"] out [of o' "of_nat (strtol10 res)"]
      by (auto simp: extract_k0_def run_machine_Inr)
  qed
qed

text \<open>
  C8. The grammars of two bodies written out. A payment request, S1, is accepted exactly when it consists of
  the letter S or C, the till's and the payment's name, three amounts, three characters of currency, an
  amount and possibly a last one, each closed by a separator; what is stored is each text at its
  place, cut to the array and followed by zeros. A K0 is a number, possibly empty, and possibly a
  text.
\<close>

theorem bodies_accept_grammar:
  "(extract_s1 inp = Inr (0, s1, rest) \<longleftrightarrow> rest = [] \<and>
    (\<exists>ty ecr pay gross net vat cur cash most. s1_text ty ecr pay gross net vat cur cash
      \<and> most \<in> insert [] (Collect is_number)
      \<and> inp = fields ([[ty], ecr, pay, gross, net, vat, cur, cash] @ (if most = [] then [] else [most]))
      \<and> s1 = s1_of ty ecr pay gross net vat cur cash most))
   \<and> (extract_k0 inp = Inr (0, k0, rest) \<longleftrightarrow> rest = [] \<and>
    (\<exists>res out. set res \<subseteq> {0x30..0x39} \<and> set out \<subseteq> {0x20..0x7E}
      \<and> inp \<in> insert (fields [res, out]) (if out = [] then {fields [res]} else {})
      \<and> k0 = \<lparr>k0_result = of_nat (strtol10 res), k0_output = cut 100 out\<rparr>))"
proof
  show "extract_s1 inp = Inr (0, s1, rest) \<longleftrightarrow> rest = [] \<and>
    (\<exists>ty ecr pay gross net vat cur cash most. s1_text ty ecr pay gross net vat cur cash
      \<and> most \<in> insert [] (Collect is_number)
      \<and> inp = fields ([[ty], ecr, pay, gross, net, vat, cur, cash] @ (if most = [] then [] else [most]))
      \<and> s1 = s1_of ty ecr pay gross net vat cur cash most)"
    unfolding s1_accepts insert_iff mem_Collect_eq by (rule refl)
  have "set w \<subseteq> {a..b} \<longleftrightarrow> (\<forall>c \<in> set w. a \<le> c \<and> c \<le> b)" for w and a b :: byte by auto
  moreover have "inp \<in> insert (fields [res, out]) (if out = [] then {fields [res]} else {}) \<longleftrightarrow>
      inp = fields [res, out] \<or> inp = fields [res] \<and> out = []" for res out by auto
  ultimately show "extract_k0 inp = Inr (0, k0, rest) \<longleftrightarrow> rest = [] \<and>
    (\<exists>res out. set res \<subseteq> {0x30..0x39} \<and> set out \<subseteq> {0x20..0x7E}
      \<and> inp \<in> insert (fields [res, out]) (if out = [] then {fields [res]} else {})
      \<and> k0 = \<lparr>k0_result = of_nat (strtol10 res), k0_output = cut 100 out\<rparr>)"
    unfolding k0_accepts by presburger
qed

section \<open>Faults\<close>


lemma card_token_fault:
  assumes "list_all rl_n e" "list_all rl_h ds" "64 < length ds"
  shows "frob_body_extract FROB_S2 (e @ FS # ds @ FS # rest) out = Inl Out_Of_Bounds_Write"
proof -
  let ?n = "num_fld s2_error_update" and ?h = "hex_fld s2_card_token s2_card_token_update"
  obtain fs where fs: "s2_fields = ?n # ?h # fs" by (simp add: s2_fields_def)
  have c: "on_char ?n = no_char" "on_char ?h = no_char" by (simp_all add: num_fld_def hex_fld_def)
  have e: "fits ?n e" "fits ?h ds"
    using assms(1,2) by (simp_all add: fits_def num_fld_def hex_fld_def)
  have 1: "rl_exec (?n # ?h # fs) [] zero_s2 (e @ FS # ds @ FS # rest) =
      rbind (on_sep ?n e zero_s2) (\<lambda>d. rl_exec (?h # fs) [] d (ds @ FS # rest))"
    using rl_exec_field [OF e(1) fld_separated(2), of "?h # fs" zero_s2 "ds @ FS # rest"]
    by (simp only: c fold_no_char fld_sel)
  have 2: "rl_exec (?h # fs) [] d (ds @ FS # rest) = rbind (on_sep ?h ds d) (\<lambda>d. rl_exec fs [] d rest)" for d
    using rl_exec_field [OF e(2) fld_separated(4), of fs d rest] by (simp only: c fold_no_char fld_sel)
  have "on_sep ?h ds d = Inl Out_Of_Bounds_Write" if "length (s2_card_token d) = 32" for d :: frob_s2
    using that assms(3) UNHEX_overflow [of "s2_card_token d" ds] by (simp add: hex_fld_def)
  from this [of "zero_s2\<lparr>s2_error := of_nat (strtol10 e)\<rparr>"]
  have "rl_exec s2_fields [] zero_s2 (e @ FS # ds @ FS # rest) = Inl Out_Of_Bounds_Write"
    unfolding fs 1 2 by (simp add: num_fld_def zero_s2_def)
  then show ?thesis
    by (simp add: frob_body_extract_def frob_enum extract_s2_def run_machine_def)
qed

text \<open>
  C34. An S2 whose card token has more than 64 digits is written behind \<open>card_token\<close>: \<open>UNHEX\<close> never looks
  at the size of what it fills.
\<close>

theorem card_token_overflow:
  assumes "header_ok t 0x53 0x32" "hdr_type (msg_header msg) = 0"
    and "list_all rl_n e" "list_all rl_h ds" "64 < length ds"
  shows "parse_message (header_text t 0x53 0x32 @ e @ FS # ds @ FS # rest) msg = Inl Out_Of_Bounds_Write"
  using header_extract_text [OF assms(1), of "e @ FS # ds @ FS # rest" "msg_header msg"]
    card_token_fault [OF assms(3-5), of rest "msg_body msg"] assms(2)
  by (simp add: parse_message_def frob_enum Let_def)

lemma long_token_input: "header_ok (lit ''1'') 0x53 0x32" "list_all rl_n (lit ''0'')"
    "list_all rl_h (replicate 65 0x41)" "64 < length (replicate 65 (0x41 :: byte))"
  by (simp_all add: header_ok_def letter_ok_def number_ok_def is_digit_def is_xdigit_def list_all_iff)

theorem card_token_overflow_witness:
  "parse_message (header_text (lit ''1'') 0x53 0x32 @ lit ''0'' @ FS # replicate 65 0x41 @ FS # []) (blank_msg 0) =
    Inl Out_Of_Bounds_Write"
  by (rule card_token_overflow [OF long_token_input(1) _ long_token_input(2-4)]) simp



section \<open>Frames in one buffer\<close>

text \<open>
  C6. Called on the bytes from \<open>p\<close> to \<open>pe\<close> of a buffer, \<open>frob_frame_process\<close> finds the first frame
  between them, wherever it starts: it leaves \<open>p\<close> and \<open>pe\<close> around the data and answers 0 or EBADMSG
  according to the checksum; without a whole frame it answers EAGAIN.
\<close>

theorem frame_process_finds:
  "(case find_frame (take (pe - p) (drop p buf)) of
      None \<Rightarrow> fst (frob_frame_process buf (fresh_fsm p pe)) = EAGAIN
    | Some (s, e, ok) \<Rightarrow>
        fst (frob_frame_process buf (fresh_fsm p pe)) = (if ok then 0 else EBADMSG)
      \<and> fst_p (snd (frob_frame_process buf (fresh_fsm p pe))) = p + s
      \<and> fst_pe (snd (frob_frame_process buf (fresh_fsm p pe))) = Some (p + e))"
  by (rule frame_process_at)

section \<open>Frames in several reads\<close>

text \<open>
  What \<open>process_main\<close> does with each read: the finder goes on from the state it was left in, on a
  buffer that starts anew.
\<close>

definition next_read :: "byte list \<Rightarrow> frame_fsm_state \<Rightarrow> errno \<times> frame_fsm_state" where
  "next_read chunk f = frob_frame_process chunk (f\<lparr>fst_p := 0, fst_pe := Some (length chunk)\<rparr>)"

fun reads :: "frame_fsm_state \<Rightarrow> byte list list \<Rightarrow> errno list" where
  "reads f [] = []"
| "reads f (c # cs) = (case next_read c f of (e, f') \<Rightarrow> e # reads f' cs)"

lemma next_read_fresh: "next_read c (fresh_fsm p pe) = frob_frame_process c (fresh_fsm 0 (length c))"
  by (simp add: next_read_def fresh_fsm_def)

lemma next_read_later:
  assumes "fst_not_first f"
  shows "next_read c f = (case frame_exec (fst_cs f) (fst_lrc f) 0 None 0 c of
    (cs, lrc, start, en, err) \<Rightarrow>
      (if en = None then EAGAIN else if err then EBADMSG
       else if cs = F_error then ENOTRECOVERABLE else if cs = F_done then 0 else EAGAIN,
       \<lparr>fst_lrc = lrc, fst_not_first = True, fst_cs = cs, fst_p = start, fst_pe = en\<rparr>))"
  using assms by (simp add: next_read_def frob_frame_process_def Let_def)

text \<open>
  C30. A frame whose data arrives in two reads is accepted on the second one with a checksum over all
  of it, but what is handed on as its data is the second part alone.
\<close>

theorem split_frame_loses_start:
  assumes "d1 \<noteq> []" "ETX \<notin> set d1" "ETX \<notin> set d2"
  shows "case next_read (STX # d1) (fresh_fsm 0 0) of (e1, f1) \<Rightarrow>
    e1 = EAGAIN \<and>
    (case next_read (d2 @ ETX # lrc_loop 0 ((d1 @ d2) @ [ETX]) # rest) f1 of (e2, f2) \<Rightarrow>
       e2 = 0 \<and> fst_p f2 = 0 \<and> fst_pe f2 = Some (length d2))"
proof -
  have 1: "next_read (STX # d1) (fresh_fsm 0 0) =
      (EAGAIN, \<lparr>fst_lrc = lrc_loop 0 d1, fst_not_first = True, fst_cs = F_data, fst_p = 1, fst_pe = None\<rparr>)"
    using frame_exec_first [of d1 0 0 None 1 "[]"] assms(1,2)
    by (simp add: next_read_fresh frame_process_fresh)
  show ?thesis
    unfolding 1
    using frame_exec_data [OF assms(3), of "lrc_loop 0 d1" 0 None 0]
    by (simp add: next_read_later frame_exec_done)
qed

theorem split_frame_witness:
  "case next_read [STX, 0x41, 0x42] (fresh_fsm 0 0) of (e1, f1) \<Rightarrow>
    e1 = EAGAIN \<and>
    (case next_read [0x43, ETX, lrc_loop 0 [0x41, 0x42, 0x43, ETX]] f1 of (e2, f2) \<Rightarrow>
       e2 = 0 \<and> fst_p f2 = 0 \<and> fst_pe f2 = Some 1)"
  using split_frame_loses_start [of "[0x41, 0x42]" "[0x43]" "[]"] by (simp add: wire_defs)

lemma stuck_reads:
  assumes "fst_not_first f" "fst_cs f \<in> {F_error, F_done, F_etx}"
  shows "reads f cs = replicate (length cs) EAGAIN"
  using assms
proof (induction cs arbitrary: f)
  case (Cons c cs)
  obtain f' where "next_read c f = (EAGAIN, f')" "fst_not_first f'" "fst_cs f' \<in> {F_error, F_done, F_etx}"
    using Cons.prems
    by (cases c; cases "fst_lrc f = hd c") (auto simp: next_read_later frame_exec_done frame_exec_error)
  then show ?case using Cons.IH by simp
qed simp

text \<open>
  C29. Two inputs the finder never recovers from, whatever is read afterwards: ETX right after STX, and a
  read that ends between ETX and the checksum. Every later call answers EAGAIN, so no message is
  seen again.
\<close>

theorem finder_wedges:
  assumes "STX \<notin> set junk" "d \<noteq> []" "ETX \<notin> set d"
  shows "reads (fresh_fsm 0 0) ((junk @ STX # ETX # others) # cs) = replicate (Suc (length cs)) EAGAIN
    \<and> reads (fresh_fsm 0 0) ((junk @ STX # d @ [ETX]) # cs) = replicate (Suc (length cs)) EAGAIN"
proof -
  have "\<exists>f. next_read c (fresh_fsm 0 0) = (EAGAIN, f) \<and> fst_not_first f \<and> fst_cs f \<in> {F_error, F_done, F_etx}"
    if "c = junk @ STX # ETX # others \<or> c = junk @ STX # d @ [ETX]" for c
    using that assms
    by (auto simp: next_read_fresh frame_process_fresh frame_exec_junk frame_exec_first)
  then show ?thesis using stuck_reads by (metis length_Cons reads.simps(2) replicate_Suc case_prod_conv)
qed

theorem finder_wedges_witness:
  "reads (fresh_fsm 0 0) [[STX, ETX, 0x03], [STX, 0x41, ETX, 0x42]] = [EAGAIN, EAGAIN]
   \<and> reads (fresh_fsm 0 0) [[STX, 0x41, ETX], [0x42], [STX, 0x41, ETX, 0x42]] = [EAGAIN, EAGAIN, EAGAIN]"
  using finder_wedges [of "[]" "[0x41]" "[0x03]" "[[STX, 0x41, ETX, 0x42]]"]
    finder_wedges [of "[]" "[0x41]" "[]" "[[0x42], [STX, 0x41, ETX, 0x42]]"]
  by (simp add: wire_defs numeral_3_eq_3)

end
