(* ===== verification/Serialization.thy ===== *)
theory Serialization
  imports Frame Parser
begin

text \<open>
  \<open>serialization.c\<close>: writing a message as a frame into a buffer. The macros \<open>BCOPY\<close>, \<open>FCOPY\<close>
  and \<open>UCOPY\<close> become operations of a list that is run over the memory behind the buffer, so that
  the order, the checks of the free space and every store are the code's.
\<close>

section \<open>Field serialisers\<close>

text \<open>
  The C types \<open>_Generic\<close> distinguishes. \<open>V_int\<close> holds the value of any unsigned integer or
  enumerator; \<open>serialize_integer\<close> takes it as \<open>int\<close> and prints it with \<open>%u\<close>, so only its low 32
  bits count.
\<close>

datatype field_value =
    V_token "32 word"
  | V_type msg_type
  | V_trx FrobTransactionType
  | V_string "byte list"
  | V_hex "byte list"
  | V_bool bool
  | V_int nat

text \<open>
  A serialiser gets the free space \<open>s\<close>, the memory and the offset of the cursor; it returns the
  memory and the number of bytes it needs.
\<close>

type_synonym serializer = "nat \<Rightarrow> byte list \<Rightarrow> nat \<Rightarrow> (byte list \<times> nat) outcome"

definition put_if :: "bool \<Rightarrow> byte list \<Rightarrow> byte list \<Rightarrow> nat \<Rightarrow> (byte list \<times> nat) outcome" where
  "put_if c bs mem p = (if c then rbind (write_at mem p bs) (\<lambda>m. Inr (m, length bs)) else Inr (mem, length bs))"

definition append_byte :: "byte \<Rightarrow> serializer" where
  "append_byte b s mem p = put_if (s \<ge> 1) [b] mem p"

definition serialize_type :: "msg_type \<Rightarrow> serializer" where
  "serialize_type t s mem p =
     rbind (frob_type_to_string t) (\<lambda>(c, n). put_if (s \<ge> 2) [c, n] mem p)"

definition serialize_trx_type :: "FrobTransactionType \<Rightarrow> serializer" where
  "serialize_trx_type t s mem p = put_if (s \<ge> 1) [frob_trx_type_to_code t] mem p"

text \<open>
  \<open>stpncpy(p, a, l)\<close> stores exactly \<open>l\<close> bytes, the text of \<open>a\<close> padded with null bytes, whatever
  the free space is.
\<close>

definition serialize_string :: "byte list \<Rightarrow> serializer" where
  "serialize_string a s mem p =
     rbind (write_at mem p (pad (length a) (cstr a))) (\<lambda>m. Inr (m, length (cstr a)))"

definition serialize_integer :: "nat \<Rightarrow> serializer" where
  "serialize_integer v s mem p =
     (let tmp = print_u (v mod 2 ^ 32) in put_if (length tmp \<le> s) tmp mem p)"

definition serialize_boolean :: "bool \<Rightarrow> serializer" where
  "serialize_boolean b = serialize_integer (of_bool b)"

text \<open>
  The text goes through \<open>char tmp[7]\<close>: six digits and a null byte at most, while the number of
  bytes copied is the length of the whole text.
\<close>

definition serialize_token :: "32 word \<Rightarrow> serializer" where
  "serialize_token v s mem p =
     (let txt = print_X (unat v); ret = length txt; tmp = pad 7 (take 6 txt) in
      if ret \<le> s then
        if 7 < ret then Inl Out_Of_Bounds_Read
        else rbind (write_at mem p (take ret tmp)) (\<lambda>m. Inr (m, ret))
      else Inr (mem, ret))"

definition serialize_field :: "field_value \<Rightarrow> serializer" where
  "serialize_field v s mem p =
     (case v of
        V_token t \<Rightarrow> serialize_token t s mem p
      | V_type t \<Rightarrow> serialize_type t s mem p
      | V_trx t \<Rightarrow> serialize_trx_type t s mem p
      | V_string a \<Rightarrow> serialize_string a s mem p
      | V_hex bs \<Rightarrow> snprint_hex s mem p bs
      | V_bool b \<Rightarrow> serialize_boolean b s mem p
      | V_int n \<Rightarrow> serialize_integer n s mem p)"

section \<open>The copy macros\<close>

text \<open>\<open>buf\<close>, the cursor \<open>p\<close> as an offset and the free space \<open>f\<close>.\<close>

record ser_state =
  ser_mem :: "byte list"
  ser_cur :: nat
  ser_free :: nat

text \<open>The difference of two values of type \<open>size_t\<close> wraps around.\<close>

definition size_sub :: "nat \<Rightarrow> nat \<Rightarrow> nat" where
  "size_sub a b = (if b \<le> a then a - b else a + 2 ^ 64 - b)"

lemma size_sub_le [simp]: "b \<le> a \<Longrightarrow> size_sub a b = a - b"
  by (simp add: size_sub_def)

text \<open>\<open>XCOPY\<close>: the flag is \<open>False\<close> after \<open>goto bail\<close>.\<close>

definition XCOPY :: "serializer \<Rightarrow> ser_state \<Rightarrow> (bool \<times> ser_state) outcome" where
  "XCOPY ser st =
     rbind (ser (ser_free st) (ser_mem st) (ser_cur st)) (\<lambda>(mem, rs).
       if rs > ser_free st then Inr (False, st\<lparr>ser_mem := mem\<rparr>)
       else Inr (True, \<lparr>ser_mem = mem, ser_cur = ser_cur st + rs, ser_free = size_sub (ser_free st) rs\<rparr>))"

text \<open>\<open>BCOPY\<close>; \<open>DCOPY\<close>, which is \<open>FCOPY\<close> or \<open>UCOPY\<close> by its separator; \<open>BCOPY\<close> of the checksum.\<close>

datatype ser_op = BCOPY byte | DCOPY field_value byte | LCOPY

definition FCOPY :: "field_value \<Rightarrow> ser_op" where "FCOPY v = DCOPY v FS"
definition UCOPY :: "field_value \<Rightarrow> ser_op" where "UCOPY v = DCOPY v US"

definition and_then ::
  "(bool \<times> ser_state) outcome \<Rightarrow> (ser_state \<Rightarrow> (bool \<times> ser_state) outcome) \<Rightarrow> (bool \<times> ser_state) outcome" where
  "and_then x k = rbind x (\<lambda>(go, st). if go then k st else Inr (False, st))"

fun run_op :: "ser_op \<Rightarrow> ser_state \<Rightarrow> (bool \<times> ser_state) outcome" where
  "run_op (BCOPY b) st = XCOPY (append_byte b) st"
| "run_op (DCOPY v d) st = and_then (XCOPY (serialize_field v) st) (XCOPY (append_byte d))"
| "run_op LCOPY st =
     rbind (calculate_lrc (drop 1 (take (ser_cur st) (ser_mem st)))) (\<lambda>lrc. XCOPY (append_byte lrc) st)"

fun run_ops :: "ser_op list \<Rightarrow> ser_state \<Rightarrow> (bool \<times> ser_state) outcome" where
  "run_ops [] st = Inr (True, st)"
| "run_ops (op # ops) st = and_then (run_op op st) (run_ops ops)"

section \<open>The body of each message\<close>

definition info_ops :: "frob_device_info \<Rightarrow> ser_op list" where
  "info_ops i =
     [FCOPY (V_string (info_version i)), FCOPY (V_string (info_vendor i)),
      FCOPY (V_string (info_device_type i)), FCOPY (V_string (info_device_id i))]"

definition t4_ops :: "byte list list \<Rightarrow> ser_op list" where
  "t4_ops vs = map (\<lambda>v. UCOPY (V_string v)) vs @ [BCOPY FS]"

definition d5_ops :: "frob_d5 \<Rightarrow> ser_op list" where
  "d5_ops d =
     [FCOPY (V_int (unat (printer_cpl d))),
      FCOPY (V_int (unat (printer_cpl2x d))),
      FCOPY (V_int (unat (printer_cpl4x d))),
      FCOPY (V_int (unat (printer_cpln d))),
      FCOPY (V_bool (printer_h2 d)),
      FCOPY (V_bool (printer_h4 d)),
      FCOPY (V_bool (printer_inv d)),
      FCOPY (V_int (unat (printer_max_barcode_length d))),
      FCOPY (V_int (unat (printer_max_qrcode_length d))),
      FCOPY (V_int (unat (printer_max_bitmap_count d))),
      FCOPY (V_int (unat (printer_max_bitmap_width d))),
      FCOPY (V_int (unat (printer_max_bitmap_height d))),
      FCOPY (V_int (unat (printer_aspect_ratio d))),
      FCOPY (V_int (unat (printer_buffer_max_lines d))),
      FCOPY (V_int (unat (display_lc d))),
      FCOPY (V_int (unat (display_cpl d))),
      UCOPY (V_string (key_enter d)),
      UCOPY (V_string (key_cancel d)),
      UCOPY (V_string (key_check d)),
      UCOPY (V_string (key_backspace d)),
      UCOPY (V_string (key_delete d)),
      UCOPY (V_string (key_up d)),
      UCOPY (V_string (key_down d)),
      UCOPY (V_string (key_left d)),
      UCOPY (V_string (key_right d)),
      BCOPY FS,
      FCOPY (V_int (device_type_code (device_topo d))),
      FCOPY (V_bool (d5_nfc d)),
      FCOPY (V_bool (d5_ccr d)),
      FCOPY (V_bool (d5_mcr d)),
      FCOPY (V_bool (d5_bar d))]"

definition s1_ops :: "frob_s1 \<Rightarrow> ser_op list" where
  "s1_ops m =
     [FCOPY (V_trx (s1_transaction_type m)),
      FCOPY (V_string (s1_ecr_id m)),
      FCOPY (V_string (s1_payment_id m)),
      FCOPY (V_string (s1_amount_gross m)),
      FCOPY (V_string (s1_amount_net m)),
      FCOPY (V_string (s1_vat m)),
      FCOPY (V_string (s1_currency m)),
      FCOPY (V_string (s1_cashback m)),
      FCOPY (V_string (s1_max_cashback m))]"

text \<open>The transaction identifier is not among the fields written for S2.\<close>

definition s2_ops :: "frob_s2 \<Rightarrow> ser_op list" where
  "s2_ops m =
     [FCOPY (V_int (unat (s2_error m))),
      FCOPY (V_hex (s2_card_token m)),
      FCOPY (V_string (s2_mid m)),
      FCOPY (V_string (s2_tid m)),
      FCOPY (V_string (s2_trx_amount m)),
      FCOPY (V_string (s2_cashback m)),
      FCOPY (V_string (s2_payment_method m)),
      FCOPY (V_string (s2_msg m))]"

definition b2_ops :: "frob_b2 \<Rightarrow> ser_op list" where
  "b2_ops m = info_ops (b2_info m) @
     [FCOPY (V_int (unat (b2_result m))), FCOPY (V_hex (b2_modulus m)), FCOPY (V_hex (b2_exponent m))]"

text \<open>
  The switch on the type. Reading a member of the union that the message does not hold is
  \<open>Union_Misread\<close>; a type without a case fails the assertion of the \<open>default\<close>.
\<close>

definition body_ops :: "msg_type \<Rightarrow> frob_body \<Rightarrow> ser_op list outcome" where
  "body_ops t b =
     (if t \<in> {FROB_T1, FROB_T3, FROB_D4, FROB_P1, FROB_A1, FROB_K1} then Inr []
      else if t = FROB_T2 then (case b of T2 i \<Rightarrow> Inr (info_ops i) | _ \<Rightarrow> Inl Union_Misread)
      else if t = FROB_T4 then (case b of T4 vs \<Rightarrow> Inr (t4_ops vs) | _ \<Rightarrow> Inl Union_Misread)
      else if t = FROB_T5 then (case b of T5 v \<Rightarrow> Inr [FCOPY (V_string v)] | _ \<Rightarrow> Inl Union_Misread)
      else if t = FROB_D5 then (case b of D5 d \<Rightarrow> Inr (d5_ops d) | _ \<Rightarrow> Inl Union_Misread)
      else if t = FROB_S1 then (case b of S1 m \<Rightarrow> Inr (s1_ops m) | _ \<Rightarrow> Inl Union_Misread)
      else if t = FROB_S2 then (case b of S2 m \<Rightarrow> Inr (s2_ops m) | _ \<Rightarrow> Inl Union_Misread)
      else if t = FROB_I1 then
        (case b of I1 m \<Rightarrow> Inr [FCOPY (V_int (transaction_status_code (i1_status m))), FCOPY (V_string (i1_msg m))]
         | _ \<Rightarrow> Inl Union_Misread)
      else if t = FROB_A2 then
        (case b of A2 m \<Rightarrow> Inr [FCOPY (V_int (unat (a2_error m))), FCOPY (V_string (a2_msg m))]
         | _ \<Rightarrow> Inl Union_Misread)
      else if t = FROB_B1 then (case b of B1 i \<Rightarrow> Inr (info_ops i) | _ \<Rightarrow> Inl Union_Misread)
      else if t = FROB_B2 then (case b of B2 m \<Rightarrow> Inr (b2_ops m) | _ \<Rightarrow> Inl Union_Misread)
      else if t = FROB_B3 then
        (case b of B3 m \<Rightarrow> Inr [FCOPY (V_hex (b3_kek m)), FCOPY (V_hex (b3_kcv m))] | _ \<Rightarrow> Inl Union_Misread)
      else if t = FROB_B4 then (case b of B4 r \<Rightarrow> Inr [FCOPY (V_int (unat r))] | _ \<Rightarrow> Inl Union_Misread)
      else if t = FROB_K0 then
        (case b of K0 m \<Rightarrow> Inr [FCOPY (V_int (unat (k0_result m))), FCOPY (V_string (k0_output m))]
         | _ \<Rightarrow> Inl Union_Misread)
      else Inl Assert_Failed)"

section \<open>serialize\<close>

definition head_ops :: "frob_header \<Rightarrow> ser_op list" where
  "head_ops h = [BCOPY STX, FCOPY (V_token (hdr_token h)), FCOPY (V_type (hdr_type h))]"

definition tail_ops :: "ser_op list" where
  "tail_ops = [BCOPY ETX, LCOPY]"

text \<open>
  Everything up to the assertions at the end: the header is written before the switch, so a
  buffer too small for it bails out first.
\<close>

definition write_frame :: "nat \<Rightarrow> byte list \<Rightarrow> frob_msg \<Rightarrow> (bool \<times> ser_state) outcome" where
  "write_frame s buf msg =
     and_then (run_ops (head_ops (msg_header msg)) \<lparr>ser_mem = buf, ser_cur = 0, ser_free = s\<rparr>) (\<lambda>st.
       rbind (body_ops (hdr_type (msg_header msg)) (msg_body msg)) (\<lambda>ops.
         run_ops (ops @ tail_ops) st))"

text \<open>
  \<open>serialize(s, buf, msg)\<close>: the value returned and the memory. The assertion \<open>buf + s - f == p\<close> compares
  modulo \<open>2^64\<close>, so that it also holds when the free space has wrapped around with the cursor. On success the
  program parses back what it wrote and returns \<open>s - f\<close>; after \<open>bail\<close> it returns \<open>buf - p\<close>.
\<close>

definition serialize :: "nat \<Rightarrow> byte list \<Rightarrow> frob_msg \<Rightarrow> (int \<times> byte list) outcome" where
  "serialize s buf msg =
     c_assert (msg_magic msg = FROB_MAGIC)
     (rbind (write_frame s buf msg) (\<lambda>(go, st).
        c_assert (size_sub s (ser_free st) = ser_cur st)
        (if go then
           let out = take (ser_cur st) (ser_mem st) in
           c_assert (fst (frob_frame_process out (fresh_fsm 0 (length out))) = 0)
           (rbind (parse_message (drop 1 (take (length out - 2) out))
              (blank_msg (hdr_type (msg_header msg)))) (\<lambda>(r, _).
              c_assert (r = 0) (Inr (int (size_sub s (ser_free st)), ser_mem st))))
         else Inr (- int (ser_cur st), ser_mem st))))"

end
