(* ===== verification/Serial_Facts.thy ===== *)
theory Serial_Facts
  imports Serialization
begin

text \<open>
  What the serialisers promise each other: the bytes a field puts on the wire, the free space it
  needs for that and the memory it touches. The locale \<open>serializer_law\<close> is the contract that the
  copy macros rely on; every serialiser of \<open>serialization.c\<close> is an interpretation of it.
\<close>

section \<open>The contract of a serialiser\<close>

text \<open>
  \<open>wire v\<close> is the text of the value \<open>v\<close>, \<open>room v\<close> the free space from which on it is stored whole,
  \<open>reach v\<close> the number of bytes from the cursor on that may be stored to.
\<close>

locale serializer_law =
  fixes ser :: "'v \<Rightarrow> serializer" and wire :: "'v \<Rightarrow> byte list" and room reach :: "'v \<Rightarrow> nat"
    and ok :: "'v \<Rightarrow> bool"
  assumes stores: "ok v \<Longrightarrow> room v \<le> s \<Longrightarrow> p + reach v \<le> length mem \<Longrightarrow>
      \<exists>m. ser v s mem p = Inr (m, length (wire v)) \<and> length m = length mem
        \<and> take (p + length (wire v)) m = take p mem @ wire v"
    and preserves: "ok v \<Longrightarrow> p + reach v \<le> length mem \<Longrightarrow>
      \<exists>m. ser v s mem p = Inr (m, length (wire v)) \<and> length m = length mem \<and> take p m = take p mem"
    and wire_room: "length (wire v) \<le> room v"
    and room_wire: "room v \<le> Suc (length (wire v))"
begin

lemma XCOPY_stores:
  assumes "ok v" "room v \<le> ser_free st" "ser_cur st + reach v \<le> length (ser_mem st)"
  shows "\<exists>m. XCOPY (ser v) st = Inr (True, \<lparr>ser_mem = m, ser_cur = ser_cur st + length (wire v),
      ser_free = ser_free st - length (wire v)\<rparr>)
    \<and> length m = length (ser_mem st)
    \<and> take (ser_cur st + length (wire v)) m = take (ser_cur st) (ser_mem st) @ wire v"
  using stores [OF assms] wire_room [of v] assms(2) by (auto simp: XCOPY_def)

lemma XCOPY_short:
  assumes "ok v" "ser_free st < length (wire v)" "ser_cur st + reach v \<le> length (ser_mem st)"
  shows "\<exists>m. XCOPY (ser v) st = Inr (False, st\<lparr>ser_mem := m\<rparr>) \<and> length m = length (ser_mem st)
    \<and> take (ser_cur st) m = take (ser_cur st) (ser_mem st)"
proof -
  obtain m where "ser v (ser_free st) (ser_mem st) (ser_cur st) = Inr (m, length (wire v))"
    "length m = length (ser_mem st)" "take (ser_cur st) m = take (ser_cur st) (ser_mem st)"
    using preserves [OF assms(1,3)] by blast
  then show ?thesis using assms(2) by (intro exI [of _ m]) (simp add: XCOPY_def)
qed

lemma XCOPY_cases:
  assumes "ok v" "ser_cur st + reach v \<le> length (ser_mem st)"
  shows "\<exists>go st'. XCOPY (ser v) st = Inr (go, st') \<and> length (ser_mem st') = length (ser_mem st)
    \<and> take (ser_cur st) (ser_mem st') = take (ser_cur st) (ser_mem st)
    \<and> (if go then length (wire v) \<le> ser_free st \<and> ser_cur st' = ser_cur st + length (wire v)
              \<and> ser_free st' = ser_free st - length (wire v)
       else ser_free st < length (wire v) \<and> ser_cur st' = ser_cur st \<and> ser_free st' = ser_free st)"
proof -
  obtain m where "ser v (ser_free st) (ser_mem st) (ser_cur st) = Inr (m, length (wire v))"
    "length m = length (ser_mem st)" "take (ser_cur st) m = take (ser_cur st) (ser_mem st)"
    using preserves [OF assms] by blast
  then show ?thesis
    by (cases "ser_free st < length (wire v)") (auto simp: XCOPY_def)
qed

end

section \<open>The serialisers keep the contract\<close>

lemma put_if_law:
  assumes "c \<longleftrightarrow> length bs \<le> s" "p + length bs \<le> length mem"
  shows "\<exists>m. put_if c bs mem p = Inr (m, length bs) \<and> length m = length mem \<and> take p m = take p mem
    \<and> (length bs \<le> s \<longrightarrow> take (p + length bs) m = take p mem @ bs)"
  using assms by (cases c) (auto simp: put_if_def write_at_def)

interpretation byte_law: serializer_law append_byte "\<lambda>b. [b]" "\<lambda>b. 1" "\<lambda>b. 1" "\<lambda>b. True"
proof
  fix v :: byte and s p :: nat and mem :: "byte list"
  assume "p + 1 \<le> length mem"
  then show "\<exists>m. append_byte v s mem p = Inr (m, length [v]) \<and> length m = length mem \<and> take p m = take p mem"
    using put_if_law [of "s \<ge> 1" "[v]" s p mem] unfolding append_byte_def by auto
next
  fix v :: byte and s p :: nat and mem :: "byte list"
  assume "1 \<le> s" "p + 1 \<le> length mem"
  then show "\<exists>m. append_byte v s mem p = Inr (m, length [v]) \<and> length m = length mem
      \<and> take (p + length [v]) m = take p mem @ [v]"
    using put_if_law [of "s \<ge> 1" "[v]" s p mem] unfolding append_byte_def by auto
qed auto

fun field_text :: "field_value \<Rightarrow> byte list" where
  "field_text (V_token t) = print_X (unat t)"
| "field_text (V_type t) = (case frob_type_to_string t of Inl _ \<Rightarrow> [] | Inr (c, n) \<Rightarrow> [c, n])"
| "field_text (V_trx t) = [frob_trx_type_to_code t]"
| "field_text (V_string a) = cstr a"
| "field_text (V_hex bs) = hex_text bs"
| "field_text (V_bool b) = bool_text b"
| "field_text (V_int n) = print_u (n mod 2 ^ 32)"

fun field_room :: "field_value \<Rightarrow> nat" where
  "field_room (V_hex bs) = 2 * length bs + 1"
| "field_room v = length (field_text v)"

fun field_reach :: "field_value \<Rightarrow> nat" where
  "field_reach (V_string a) = length a"
| "field_reach (V_hex bs) = 2 * length bs + 1"
| "field_reach v = length (field_text v)"

text \<open>
  The values that are serialised without a fault: tokens of at most six digits and types that have
  a name.
\<close>

fun field_good :: "field_value \<Rightarrow> bool" where
  "field_good (V_token t) \<longleftrightarrow> unat t < 2 ^ 24"
| "field_good (V_type t) \<longleftrightarrow> (\<exists>cn. frob_type_to_string t = Inr cn)"
| "field_good _ \<longleftrightarrow> True"

lemma token_text_length: "unat (t :: 32 word) < 2 ^ 24 \<Longrightarrow> length (print_X (unat t)) \<le> 6"
  by (rule print_X_length) simp_all

lemma serialize_token_put:
  "unat t < 2 ^ 24 \<Longrightarrow>
   serialize_token t s mem p = put_if (length (print_X (unat t)) \<le> s) (print_X (unat t)) mem p"
  using token_text_length [of t]
  by (simp add: serialize_token_def put_if_def Let_def pad_def)

lemma serialize_field_put:
  assumes "field_good v" "\<And>a. v \<noteq> V_string a" "\<And>bs. v \<noteq> V_hex bs"
  shows "serialize_field v s mem p = put_if (length (field_text v) \<le> s) (field_text v) mem p"
  using assms
proof (cases v)
  case (V_type t)
  with assms obtain c n where "frob_type_to_string t = Inr (c, n)" by auto
  then show ?thesis using V_type
    by (simp add: serialize_field_def serialize_type_def numeral_2_eq_2)
next
  case (V_bool b)
  then show ?thesis
    by (cases b) (simp_all add: serialize_field_def serialize_boolean_def serialize_integer_def bool_text_def Let_def
        del: bool_text_simps)
qed (auto simp: serialize_field_def serialize_token_put serialize_trx_type_def serialize_integer_def Let_def)

lemma serialize_field_law:
  assumes "field_good v" "p + field_reach v \<le> length mem"
  shows "\<exists>m. serialize_field v s mem p = Inr (m, length (field_text v)) \<and> length m = length mem
    \<and> take p m = take p mem
    \<and> (field_room v \<le> s \<longrightarrow> take (p + length (field_text v)) m = take p mem @ field_text v)"
proof (cases v)
  case (V_string a)
  have w: "write_at mem p (pad (length a) (cstr a)) =
      Inr (take p mem @ pad (length a) (cstr a) @ drop (p + length a) mem)" (is "_ = Inr ?m")
    using assms V_string cstr_length [of a] by (simp add: write_at_def length_pad)
  have "take (p + length (cstr a)) ?m = take p mem @ cstr a"
    using assms V_string by (simp add: pad_def)
  then show ?thesis using w assms V_string cstr_length [of a]
    by (simp add: serialize_field_def serialize_string_def length_pad)
next
  case (V_hex bs)
  show ?thesis
  proof (cases "2 * length bs + 1 \<le> s")
    case True
    obtain m where m: "hex_loop mem p bs = Inr m" "length m = length mem"
      "take (p + 2 * length bs) m = take p mem @ hex_text bs"
      using hex_loop_ok [of p bs mem] assms V_hex by auto
    then show ?thesis using True V_hex hex_loop_frame [OF m(1)]
      by (simp add: serialize_field_def snprint_hex_def mult.commute)
  next
    case False
    then show ?thesis using V_hex by (simp add: serialize_field_def snprint_hex_def mult.commute)
  qed
qed (use assms serialize_field_put [of v s mem p] put_if_law [of "length (field_text v) \<le> s" "field_text v" s p mem]
     in auto)

interpretation field_law_ser: serializer_law serialize_field field_text field_room field_reach field_good
proof
  fix v :: field_value and s p :: nat and mem :: "byte list"
  assume "field_good v" "field_room v \<le> s" "p + field_reach v \<le> length mem"
  then show "\<exists>m. serialize_field v s mem p = Inr (m, length (field_text v)) \<and> length m = length mem
      \<and> take (p + length (field_text v)) m = take p mem @ field_text v"
    using serialize_field_law [of v p mem s] by auto
next
  fix v :: field_value and s p :: nat and mem :: "byte list"
  assume "field_good v" "p + field_reach v \<le> length mem"
  then show "\<exists>m. serialize_field v s mem p = Inr (m, length (field_text v)) \<and> length m = length mem
      \<and> take p m = take p mem"
    using serialize_field_law [of v p mem s] by auto
next
  fix v
  show "length (field_text v) \<le> field_room v" "field_room v \<le> Suc (length (field_text v))"
    by (cases v; simp)+
qed

section \<open>Running the copy operations\<close>

fun op_text :: "ser_op \<Rightarrow> byte list" where
  "op_text (BCOPY b) = [b]"
| "op_text (DCOPY v d) = field_text v @ [d]"
| "op_text LCOPY = []"

fun op_reach :: "ser_op \<Rightarrow> nat" where
  "op_reach (BCOPY b) = 1"
| "op_reach (DCOPY v d) = max (field_reach v) (length (field_text v) + 1)"
| "op_reach LCOPY = 1"

fun op_good :: "ser_op \<Rightarrow> bool" where
  "op_good (BCOPY b) \<longleftrightarrow> True"
| "op_good (DCOPY v d) \<longleftrightarrow> field_good v"
| "op_good LCOPY \<longleftrightarrow> False"

definition ops_text :: "ser_op list \<Rightarrow> byte list" where
  "ops_text ops = concat (map op_text ops)"

fun ops_need :: "ser_op list \<Rightarrow> nat" where
  "ops_need [] = 0"
| "ops_need (op # ops) = max (op_reach op) (length (op_text op) + ops_need ops)"

lemma ops_text_simps [simp]:
  "ops_text [] = []" "ops_text (op # ops) = op_text op @ ops_text ops"
  "ops_text (xs @ ys) = ops_text xs @ ops_text ys"
  by (simp_all add: ops_text_def)

lemma ops_need_append: "ops_need (xs @ ys) = max (ops_need xs) (length (ops_text xs) + ops_need ys)"
  by (induction xs) auto

lemma ops_need_text: "list_all op_good ops \<Longrightarrow> length (ops_text ops) \<le> ops_need ops"
proof (induction ops)
  case (Cons op ops)
  then show ?case by (cases op) auto
qed simp

definition wrote :: "ser_state \<Rightarrow> byte list \<Rightarrow> ser_state \<Rightarrow> bool" where
  "wrote st wire st' \<longleftrightarrow> ser_cur st' = ser_cur st + length wire \<and> ser_free st' = ser_free st - length wire
     \<and> length (ser_mem st') = length (ser_mem st)
     \<and> take (ser_cur st') (ser_mem st') = take (ser_cur st) (ser_mem st) @ wire"

lemma wrote_trans: "wrote st x st1 \<Longrightarrow> wrote st1 y st2 \<Longrightarrow> wrote st (x @ y) st2"
  by (auto simp: wrote_def)

lemma and_then_go [simp]: "and_then (Inr (True, st)) k = k st" "and_then (Inr (False, st)) k = Inr (False, st)"
  "and_then (Inl e) k = Inl e"
  by (simp_all add: and_then_def)

lemma and_then_assoc: "and_then (and_then x f) g = and_then x (\<lambda>st. and_then (f st) g)"
  by (cases x) (auto simp: and_then_def)

lemma run_ops_append: "run_ops (xs @ ys) st = and_then (run_ops xs st) (run_ops ys)"
proof (induction xs arbitrary: st)
  case (Cons op xs)
  have "run_ops (xs @ ys) = (\<lambda>st. and_then (run_ops xs st) (run_ops ys))" using Cons by blast
  then show ?case by (simp add: and_then_assoc)
qed simp

lemma byte_stores:
  assumes "1 \<le> ser_free st" "ser_cur st + 1 \<le> length (ser_mem st)"
  shows "\<exists>st'. XCOPY (append_byte b) st = Inr (True, st') \<and> wrote st [b] st'"
proof -
  obtain m where "XCOPY (append_byte b) st = Inr (True, \<lparr>ser_mem = m, ser_cur = ser_cur st + 1,
      ser_free = ser_free st - 1\<rparr>)" "length m = length (ser_mem st)"
    "take (ser_cur st + 1) m = take (ser_cur st) (ser_mem st) @ [b]"
    using byte_law.XCOPY_stores [where v = b and st = st] assms by auto
  then show ?thesis by (simp add: wrote_def)
qed

lemma run_op_stores:
  assumes "op_good op" "length (op_text op) \<le> ser_free st" "ser_cur st + op_reach op \<le> length (ser_mem st)"
  shows "\<exists>st'. run_op op st = Inr (True, st') \<and> wrote st (op_text op) st'"
proof (cases op)
  case (BCOPY b)
  then show ?thesis using byte_stores [of st b] assms by simp
next
  case (DCOPY v d)
  let ?n = "length (field_text v)"
  have "field_room v \<le> ser_free st"
    using assms(2) DCOPY field_law_ser.room_wire [of v] by simp
  then obtain m where m: "XCOPY (serialize_field v) st = Inr (True, \<lparr>ser_mem = m, ser_cur = ser_cur st + ?n,
      ser_free = ser_free st - ?n\<rparr>)" (is "_ = Inr (True, ?st1)")
    "length m = length (ser_mem st)" "take (ser_cur st + ?n) m = take (ser_cur st) (ser_mem st) @ field_text v"
    using field_law_ser.XCOPY_stores [where v = v and st = st] assms DCOPY by auto
  have "wrote st (field_text v) ?st1" using m by (simp add: wrote_def)
  moreover have "1 \<le> ser_free ?st1" "ser_cur ?st1 + 1 \<le> length (ser_mem ?st1)"
    using assms DCOPY m(2) by auto
  then obtain st' where "XCOPY (append_byte d) ?st1 = Inr (True, st')" "wrote ?st1 [d] st'"
    using byte_stores by blast
  ultimately show ?thesis using m(1) DCOPY wrote_trans by auto
qed (use assms in simp)

lemma run_ops_stores:
  assumes "list_all op_good ops" "length (ops_text ops) \<le> ser_free st"
    "ser_cur st + ops_need ops \<le> length (ser_mem st)"
  shows "\<exists>st'. run_ops ops st = Inr (True, st') \<and> wrote st (ops_text ops) st'"
  using assms
proof (induction ops arbitrary: st)
  case (Cons op ops)
  obtain st1 where st1: "run_op op st = Inr (True, st1)" "wrote st (op_text op) st1"
    using run_op_stores [of op st] Cons.prems by auto
  then have "length (ops_text ops) \<le> ser_free st1" "ser_cur st1 + ops_need ops \<le> length (ser_mem st1)"
    using Cons.prems by (auto simp: wrote_def)
  then obtain st2 where "run_ops ops st1 = Inr (True, st2)" "wrote st1 (ops_text ops) st2"
    using Cons.IH [of st1] Cons.prems by auto
  then show ?case using st1 wrote_trans by auto
qed (simp add: wrote_def)

text \<open>A run stays in the free space, with cursor and free space consistent.\<close>

definition within_space :: "ser_state \<Rightarrow> ser_state \<Rightarrow> bool" where
  "within_space st st' \<longleftrightarrow> ser_cur st \<le> ser_cur st' \<and> ser_cur st' + ser_free st' = ser_cur st + ser_free st
     \<and> length (ser_mem st') = length (ser_mem st)"

lemma within_space_trans: "within_space a b \<Longrightarrow> within_space b c \<Longrightarrow> within_space a c"
  by (auto simp: within_space_def)

text \<open>
  The pieces that the macros copy one by one: the longest beginning of them that fits into \<open>n\<close> bytes.
\<close>

fun fitting :: "nat \<Rightarrow> byte list list \<Rightarrow> byte list" where
  "fitting n [] = []"
| "fitting n (w # ws) = (if length w \<le> n then w @ fitting (n - length w) ws else [])"

fun op_pieces :: "ser_op \<Rightarrow> byte list list" where
  "op_pieces (BCOPY b) = [[b]]"
| "op_pieces (DCOPY v d) = [field_text v, [d]]"
| "op_pieces LCOPY = []"

definition ops_pieces :: "ser_op list \<Rightarrow> byte list list" where
  "ops_pieces ops = concat (map op_pieces ops)"

lemma ops_pieces_simps [simp]: "ops_pieces [] = []" "ops_pieces (op # ops) = op_pieces op @ ops_pieces ops"
  "ops_pieces (xs @ ys) = ops_pieces xs @ ops_pieces ys"
  by (simp_all add: ops_pieces_def)

lemma op_pieces_text: "concat (op_pieces op) = op_text op"
  by (cases op) simp_all

lemma ops_pieces_text: "concat (ops_pieces ops) = ops_text ops"
  by (induction ops) (simp_all add: op_pieces_text)

lemma fitting_length: "length (fitting n ws) \<le> n"
  by (induction n ws rule: fitting.induct) auto

lemma fitting_all: "length (concat ws) \<le> n \<Longrightarrow> fitting n ws = concat ws"
  by (induction n ws rule: fitting.induct) auto

lemma fitting_append:
  "fitting n (vs @ ws) = (if length (concat vs) \<le> n then concat vs @ fitting (n - length (concat vs)) ws else fitting n vs)"
  by (induction n vs rule: fitting.induct) auto

text \<open>
  A run that bails out: the cursor stands behind the pieces that fitted, and they are what was stored.
  Only hexadecimal text that fills the space to the last byte is counted and not stored, for lack of
  room for its terminator.
\<close>

fun no_hex :: "ser_op \<Rightarrow> bool" where
  "no_hex (DCOPY (V_hex bs) d) \<longleftrightarrow> False"
| "no_hex op \<longleftrightarrow> True"

definition fitted :: "ser_state \<Rightarrow> byte list list \<Rightarrow> bool \<Rightarrow> ser_state \<Rightarrow> bool" where
  "fitted st ws exact st' \<longleftrightarrow>
     ser_cur st' = ser_cur st + length (fitting (ser_free st) ws)
   \<and> ser_free st' = ser_free st - length (fitting (ser_free st) ws)
   \<and> length (ser_mem st') = length (ser_mem st)
   \<and> take (ser_cur st) (ser_mem st') = take (ser_cur st) (ser_mem st)
   \<and> (exact \<longrightarrow> take (ser_cur st + length (fitting (ser_free st) ws)) (ser_mem st') =
        take (ser_cur st) (ser_mem st) @ fitting (ser_free st) ws)"

lemma byte_short:
  assumes "ser_free st < 1" "ser_cur st + 1 \<le> length (ser_mem st)"
  shows "\<exists>m. XCOPY (append_byte b) st = Inr (False, st\<lparr>ser_mem := m\<rparr>) \<and> length m = length (ser_mem st)
    \<and> take (ser_cur st) m = take (ser_cur st) (ser_mem st)"
  using byte_law.XCOPY_short [where v = b and st = st] assms by auto

lemma run_op_short:
  assumes "op_good op" "ser_free st < length (op_text op)" "ser_cur st + op_reach op \<le> length (ser_mem st)"
  shows "\<exists>st'. run_op op st = Inr (False, st') \<and> fitted st (op_pieces op) (no_hex op) st'"
proof (cases op)
  case (BCOPY b)
  then obtain m where "run_op op st = Inr (False, st\<lparr>ser_mem := m\<rparr>)" "length m = length (ser_mem st)"
    "take (ser_cur st) m = take (ser_cur st) (ser_mem st)"
    using byte_short [of st b] assms by auto
  then show ?thesis using assms(2) BCOPY by (simp add: fitted_def)
next
  case (DCOPY v d)
  let ?n = "length (field_text v)"
  show ?thesis
  proof (cases "?n \<le> ser_free st")
    case False
    then obtain m where "XCOPY (serialize_field v) st = Inr (False, st\<lparr>ser_mem := m\<rparr>)" "length m = length (ser_mem st)"
      "take (ser_cur st) m = take (ser_cur st) (ser_mem st)"
      using field_law_ser.XCOPY_short [where v = v and st = st] assms DCOPY by auto
    then show ?thesis using False DCOPY by (simp add: fitted_def)
  next
    case True
    then have n: "ser_free st = ?n" using assms(2) DCOPY by simp
    obtain st1 where st1: "XCOPY (serialize_field v) st = Inr (True, st1)" "ser_free st1 = 0" "ser_cur st1 = ser_cur st + ?n"
      "length (ser_mem st1) = length (ser_mem st)" "take (ser_cur st) (ser_mem st1) = take (ser_cur st) (ser_mem st)"
      using field_law_ser.XCOPY_cases [where v = v and st = st] assms DCOPY n by (auto split: if_splits)
    have stored: "take (ser_cur st1) (ser_mem st1) = take (ser_cur st) (ser_mem st) @ field_text v" if "no_hex op"
    proof -
      have "field_room v \<le> ser_free st" using that DCOPY n by (cases v) auto
      then show ?thesis
        using field_law_ser.XCOPY_stores [where v = v and st = st] st1 assms DCOPY by auto
    qed
    obtain m where m: "XCOPY (append_byte d) st1 = Inr (False, st1\<lparr>ser_mem := m\<rparr>)" "length m = length (ser_mem st1)"
      "take (ser_cur st1) m = take (ser_cur st1) (ser_mem st1)"
      using byte_short [of st1 d] st1 assms DCOPY by auto
    have "take (ser_cur st) (take (ser_cur st1) m) = take (ser_cur st) (take (ser_cur st1) (ser_mem st1))"
      using m(3) by (rule arg_cong)
    then have "take (ser_cur st) m = take (ser_cur st) (ser_mem st)" using st1(3,5) by (simp add: min_def)
    then show ?thesis using st1 m stored DCOPY n by (auto simp: fitted_def)
  qed
qed (use assms in simp)

lemma run_ops_short:
  assumes "list_all op_good ops" "ser_free st < length (ops_text ops)"
    "ser_cur st + ops_need ops \<le> length (ser_mem st)"
  shows "\<exists>st'. run_ops ops st = Inr (False, st') \<and> fitted st (ops_pieces ops) (list_all no_hex ops) st'"
  using assms
proof (induction ops arbitrary: st)
  case (Cons op ops)
  have cut: "fitting n (op_pieces op @ ws) = (if length (op_text op) \<le> n then op_text op @ fitting (n - length (op_text op)) ws
      else fitting n (op_pieces op))" for n ws
    by (simp add: fitting_append op_pieces_text)
  show ?case
  proof (cases "length (op_text op) \<le> ser_free st")
    case True
    then obtain st1 where st1: "run_op op st = Inr (True, st1)" "wrote st (op_text op) st1"
      using run_op_stores [of op st] Cons.prems by auto
    then have "ser_free st1 < length (ops_text ops)" "ser_cur st1 + ops_need ops \<le> length (ser_mem st1)"
      using Cons.prems True by (auto simp: wrote_def)
    then obtain st2 where st2: "run_ops ops st1 = Inr (False, st2)" "fitted st1 (ops_pieces ops) (list_all no_hex ops) st2"
      using Cons.IH [of st1] Cons.prems by auto
    have "take (ser_cur st) (take (ser_cur st1) (ser_mem st2)) = take (ser_cur st) (take (ser_cur st1) (ser_mem st1))"
      using st2(2) by (intro arg_cong [where f = "take (ser_cur st)"]) (simp add: fitted_def)
    moreover have "take (ser_cur st) (take (ser_cur st1) (ser_mem st1)) = take (ser_cur st) (take (ser_cur st) (ser_mem st) @ op_text op)"
      using st1(2) by (intro arg_cong [where f = "take (ser_cur st)"]) (unfold wrote_def, blast)
    ultimately have "take (ser_cur st) (ser_mem st2) = take (ser_cur st) (ser_mem st)"
      using st1(2) Cons.prems(3) by (simp add: wrote_def min_def)
    moreover have "take (ser_cur st + length (op_text op)) (ser_mem st1) = take (ser_cur st) (ser_mem st) @ op_text op"
      using st1(2) unfolding wrote_def by metis
    moreover have "ser_cur st1 = ser_cur st + length (op_text op)" "ser_free st1 = ser_free st - length (op_text op)"
      "length (ser_mem st1) = length (ser_mem st)"
      using st1(2) by (simp_all add: wrote_def)
    ultimately have "fitted st (ops_pieces (op # ops)) (list_all no_hex (op # ops)) st2"
      using st2(2) True by (simp add: fitted_def cut add.assoc)
    then show ?thesis using st1 st2 by auto
  next
    case False
    then obtain st' where st': "run_op op st = Inr (False, st')" "fitted st (op_pieces op) (no_hex op) st'"
      using run_op_short [of op st] Cons.prems by auto
    then have "fitted st (ops_pieces (op # ops)) (list_all no_hex (op # ops)) st'"
      using False by (simp add: fitted_def cut)
    then show ?thesis using st'(1) by auto
  qed
qed simp

end
