(* ===== verification/Roundtrip.thy ===== *)
theory Roundtrip
  imports Serial_Facts
begin

text \<open>
  What the serialiser writes, the parser reads back: for every body that has both a serialiser
  and a machine and whose fields are well formed. The laws of the fields (theory
  \<open>Ragel_Fields\<close>) and of the serialisers (theory \<open>Serial_Facts\<close>) meet here.
\<close>

section \<open>A frame in memory\<close>

definition payload :: "frob_header \<Rightarrow> ser_op list \<Rightarrow> byte list" where
  "payload h ops = ops_text [FCOPY (V_token (hdr_token h)), FCOPY (V_type (hdr_type h))] @ ops_text ops"

definition frame_of :: "byte list \<Rightarrow> byte list" where
  "frame_of p = STX # p @ [ETX, lrc_loop 0 (p @ [ETX])]"

definition frame_need :: "frob_header \<Rightarrow> ser_op list \<Rightarrow> nat" where
  "frame_need h ops = max (ops_need (head_ops h @ ops @ [BCOPY ETX])) (length (frame_of (payload h ops)))"

definition header_good :: "frob_header \<Rightarrow> bool" where
  "header_good h \<longleftrightarrow> unat (hdr_token h) < 2 ^ 24 \<and> (\<exists>cn. frob_type_to_string (hdr_type h) = Inr cn)"

lemma frame_of_length [simp]: "length (frame_of p) = length p + 3"
  by (simp add: frame_of_def)

lemma head_good: "header_good h \<Longrightarrow> list_all op_good (head_ops h)"
  by (simp add: head_ops_def header_good_def FCOPY_def)

lemma frame_ops_text: "ops_text (head_ops h @ ops @ [BCOPY ETX]) = STX # payload h ops @ [ETX]"
  by (simp add: head_ops_def payload_def)

lemma LCOPY_stores:
  assumes "1 \<le> ser_free st" "ser_cur st + 1 \<le> length (ser_mem st)" "take (ser_cur st) (ser_mem st) = b # bs" "bs \<noteq> []"
  shows "\<exists>st'. run_op LCOPY st = Inr (True, st') \<and> wrote st [lrc_loop 0 bs] st'"
  using byte_stores [OF assms(1,2)] assms(3,4) by (simp add: calculate_lrc_def)

lemma frame_ops_length: "length (ops_text (head_ops h @ ops @ [BCOPY ETX])) = length (payload h ops) + 2"
  by (simp only: frame_ops_text) simp

lemma write_frame_stores:
  assumes "header_good (msg_header msg)" "body_ops (hdr_type (msg_header msg)) (msg_body msg) = Inr ops"
    "list_all op_good ops" "length (frame_of (payload (msg_header msg) ops)) \<le> s"
    "frame_need (msg_header msg) ops \<le> length buf"
  shows "\<exists>st. write_frame s buf msg = Inr (True, st)
    \<and> wrote \<lparr>ser_mem = buf, ser_cur = 0, ser_free = s\<rparr> (frame_of (payload (msg_header msg) ops)) st"
proof -
  let ?h = "msg_header msg" and ?st0 = "\<lparr>ser_mem = buf, ser_cur = 0, ser_free = s\<rparr>"
  let ?pre = "head_ops ?h @ ops @ [BCOPY ETX]"
  have "list_all op_good ?pre" using head_good [OF assms(1)] assms(3) by simp
  moreover have "length (ops_text ?pre) \<le> ser_free ?st0" "ser_cur ?st0 + ops_need ?pre \<le> length (ser_mem ?st0)"
    using assms(4,5) by (simp_all add: frame_ops_length frame_need_def del: ops_text_simps)
  ultimately obtain st1 where st1: "run_ops ?pre ?st0 = Inr (True, st1)" "wrote ?st0 (ops_text ?pre) st1"
    using run_ops_stores by blast
  then have w: "wrote ?st0 (STX # payload ?h ops @ [ETX]) st1" by (simp only: frame_ops_text)
  then have "take (ser_cur st1) (ser_mem st1) = STX # payload ?h ops @ [ETX]"
    "ser_cur st1 = length (payload ?h ops) + 2" "ser_free st1 = s - (length (payload ?h ops) + 2)"
    "length (ser_mem st1) = length buf"
    by (auto simp: wrote_def)
  moreover have "length (payload ?h ops) + 3 \<le> length buf"
    using assms(5) by (simp add: frame_need_def)
  moreover have "length (payload ?h ops) + 3 \<le> s" using assms(4) by simp
  ultimately have "\<exists>st2. run_op LCOPY st1 = Inr (True, st2) \<and> wrote st1 [lrc_loop 0 (payload ?h ops @ [ETX])] st2"
    by (intro LCOPY_stores [of st1 STX]) simp_all
  then obtain st2 where st2: "run_op LCOPY st1 = Inr (True, st2)"
    "wrote st1 [lrc_loop 0 (payload ?h ops @ [ETX])] st2" by blast
  have "write_frame s buf msg = run_ops (?pre @ [LCOPY]) ?st0"
    using assms(2) by (simp add: write_frame_def run_ops_append [abs_def] tail_ops_def and_then_assoc)
  also have "\<dots> = Inr (True, st2)" using st1(1) st2(1) by (simp only: run_ops_append and_then_go run_ops.simps)
  finally show ?thesis
    using wrote_trans [OF w st2(2)] by (auto simp: frame_of_def)
qed

text \<open>When the frame does not fit, the run stops behind the pieces that did.\<close>

definition frame_pieces :: "frob_header \<Rightarrow> ser_op list \<Rightarrow> byte list list" where
  "frame_pieces h ops = ops_pieces (head_ops h @ ops @ [BCOPY ETX]) @ [[lrc_loop 0 (payload h ops @ [ETX])]]"

lemma write_frame_short:
  assumes "header_good (msg_header msg)" "body_ops (hdr_type (msg_header msg)) (msg_body msg) = Inr ops"
    "list_all op_good ops" "s < length (frame_of (payload (msg_header msg) ops))"
    "frame_need (msg_header msg) ops \<le> length buf"
  shows "\<exists>st. write_frame s buf msg = Inr (False, st)
    \<and> fitted \<lparr>ser_mem = buf, ser_cur = 0, ser_free = s\<rparr> (frame_pieces (msg_header msg) ops) (list_all no_hex ops) st"
proof -
  let ?h = "msg_header msg" and ?st0 = "\<lparr>ser_mem = buf, ser_cur = 0, ser_free = s\<rparr>"
  let ?pre = "head_ops ?h @ ops @ [BCOPY ETX]" and ?lrc = "lrc_loop 0 (payload (msg_header msg) ops @ [ETX])"
  have good: "list_all op_good ?pre" "ser_cur ?st0 + ops_need ?pre \<le> length (ser_mem ?st0)"
    using head_good [OF assms(1)] assms(3,5) by (simp_all add: frame_need_def)
  have "write_frame s buf msg = run_ops (?pre @ [LCOPY]) ?st0"
    using assms(2) by (simp add: write_frame_def run_ops_append [abs_def] tail_ops_def and_then_assoc)
  then have run: "write_frame s buf msg = and_then (run_ops ?pre ?st0) (run_ops [LCOPY])"
    by (simp only: run_ops_append)
  have hex: "list_all no_hex ?pre \<longleftrightarrow> list_all no_hex ops" by (simp add: head_ops_def FCOPY_def)
  have fit: "fitting s (frame_pieces ?h ops) =
      (if length (ops_text ?pre) \<le> s then ops_text ?pre @ fitting (s - length (ops_text ?pre)) [[?lrc]] else fitting s (ops_pieces ?pre))"
    unfolding frame_pieces_def by (subst fitting_append) (simp only: ops_pieces_text)
  show ?thesis
  proof (cases "length (ops_text ?pre) \<le> s")
    case False
    then obtain st where "run_ops ?pre ?st0 = Inr (False, st)" "fitted ?st0 (ops_pieces ?pre) (list_all no_hex ?pre) st"
      using run_ops_short [OF good(1) _ good(2)] by (auto simp del: ops_text_simps ops_pieces_simps list_all_append)
    then show ?thesis using False fit hex
      by (simp add: run fitted_def del: ops_text_simps ops_pieces_simps list_all_append)
  next
    case True
    then obtain st1 where st1: "run_ops ?pre ?st0 = Inr (True, st1)" "wrote ?st0 (ops_text ?pre) st1"
      using run_ops_stores [OF good(1) _ good(2)] by (auto simp del: ops_text_simps)
    have len: "length (ops_text ?pre) = s"
      using True assms(4) by (simp add: frame_ops_length del: ops_text_simps)
    have st: "ser_free st1 = 0" "ser_cur st1 = s" "length (ser_mem st1) = length buf"
      "take s (ser_mem st1) = STX # payload ?h ops @ [ETX]"
      using st1(2) len by (auto simp: wrote_def frame_ops_text simp del: ops_text_simps)
    have room: "s + 1 \<le> length buf"
      using assms(5) len by (simp add: frame_need_def frame_ops_length del: ops_text_simps)
    obtain m where m: "XCOPY (append_byte ?lrc) st1 = Inr (False, st1\<lparr>ser_mem := m\<rparr>)" "length m = length buf"
      "take s m = take s (ser_mem st1)"
      using byte_short [of st1 ?lrc] st(1-3) room by auto
    have "run_ops [LCOPY] st1 = Inr (False, st1\<lparr>ser_mem := m\<rparr>)"
      using st m(1) by (simp add: calculate_lrc_def)
    moreover have "fitting s (frame_pieces ?h ops) = STX # payload ?h ops @ [ETX]"
      using fit len by (simp add: frame_ops_text del: ops_text_simps)
    moreover have "length (STX # payload ?h ops @ [ETX]) = s" using len frame_ops_text by metis
    ultimately show ?thesis
      using st1(1) st m by (auto simp: run fitted_def simp del: run_ops.simps)
  qed
qed

lemma frame_of_accepted:
  assumes "p \<noteq> []" "ETX \<notin> set p"
  shows "fst (frob_frame_process (frame_of p) (fresh_fsm 0 (length (frame_of p)))) = 0"
  using process_find_frame [of "frame_of p"] find_frame_body [of "[]" p "lrc_loop 0 (p @ [ETX])" "[]"] assms
  by (simp add: frame_of_def)

lemma frame_of_inner: "drop 1 (take (length (frame_of p) - 2) (frame_of p)) = p"
  by (simp add: frame_of_def)

text \<open>Serialising succeeds with exactly the frame when the payload parses.\<close>

lemma serialize_frame:
  assumes "header_good (msg_header msg)" "body_ops (hdr_type (msg_header msg)) (msg_body msg) = Inr ops"
    "list_all op_good ops" "msg_magic msg = FROB_MAGIC"
    and p: "p = payload (msg_header msg) ops" "ETX \<notin> set p"
    and fit: "length (frame_of p) \<le> s" "frame_need (msg_header msg) ops \<le> length buf"
    and parse: "parse_message p (blank_msg (hdr_type (msg_header msg))) = Inr (0, m)"
  shows "\<exists>buf'. serialize s buf msg = Inr (int (length (frame_of p)), buf')
    \<and> take (length (frame_of p)) buf' = frame_of p \<and> length buf' = length buf"
proof -
  obtain st where st: "write_frame s buf msg = Inr (True, st)"
    "wrote \<lparr>ser_mem = buf, ser_cur = 0, ser_free = s\<rparr> (frame_of p) st"
    using write_frame_stores assms by blast
  then have facts: "ser_cur st = length (frame_of p)" "ser_free st = s - length (frame_of p)"
    "take (length (frame_of p)) (ser_mem st) = frame_of p" "length (ser_mem st) = length buf"
    by (auto simp: wrote_def)
  have "p \<noteq> []" using p(1) by (simp add: payload_def FCOPY_def)
  then have "fst (frob_frame_process (frame_of p) (fresh_fsm 0 (length (frame_of p)))) = 0"
    using frame_of_accepted p(2) by blast
  moreover have "s - (s - length (frame_of p)) = length (frame_of p)" using fit(1) by simp
  ultimately show ?thesis
    using st(1) assms(4) parse
    by (simp only: serialize_def Let_def facts frame_of_inner rbind_simps c_assert_True if_True case_prod_conv
        simp_thms) (use facts(3,4) in simp)
qed

section \<open>Reading back the fields\<close>

lemma exec_str:
  "list_all c w \<Longrightarrow> l \<le> length w \<Longrightarrow> (case h of None \<Rightarrow> True | Some m \<Rightarrow> length w \<le> m) \<Longrightarrow> \<not> c s \<Longrightarrow>
   rl_exec (text_fld c l h s upd # fs) [] d (w @ s # rest) = rl_exec fs [] (upd (\<lambda>dst. copy_into dst w) d) rest"
  using str.exec [of c w l h s upd fs d rest] by simp

lemma exec_num:
  "n < 2 ^ 63 \<Longrightarrow>
   rl_exec (num_fld upd # fs) [] d (print_u n @ FS # rest) = rl_exec fs [] (upd (\<lambda>_. of_nat n) d) rest"
  using num.exec [of n upd fs d rest] by simp

lemma exec_flag:
  "rl_exec (bool_fld upd # fs) [] d (bool_text b @ FS # rest) = rl_exec fs [] (upd (\<lambda>_. b) d) rest"
  using flag.exec [of upd fs d b rest] by simp

lemma exec_hex:
  "length bs = length (get d) \<Longrightarrow>
   rl_exec (hex_fld get upd # fs) [] d (hex_text bs @ FS # rest) = rl_exec fs [] (upd (\<lambda>_. bs) d) rest"
  using hex.exec [of bs get d upd fs rest] by simp

interpretation topo: field_law topo_fld "\<lambda>t. print_u (device_type_code t)" "\<lambda>t d. d\<lparr>device_topo := t\<rparr>"
  "\<lambda>t d. True"
proof
  fix t :: FrobDeviceType and d :: frob_d5
  show "fits topo_fld (print_u (device_type_code t))"
    by (cases t) (simp_all add: fits_def topo_fld_def print_u_def to_digits.simps decdig_def)
  show "separated topo_fld" by (simp add: separated_def topo_fld_def wire_defs)
  show "on_sep topo_fld (print_u (device_type_code t)) (fold (on_char topo_fld) (print_u (device_type_code t)) d)
      = Inr (d\<lparr>device_topo := t\<rparr>)"
    by (cases t) (simp_all add: topo_fld_def print_u_def to_digits.simps decdig_def topo_of_def)
qed

lemma exec_topo:
  "rl_exec (topo_fld # fs) [] d (print_u (device_type_code t) @ FS # rest) =
   rl_exec fs [] (d\<lparr>device_topo := t\<rparr>) rest"
  using topo.exec [where v = t and d = d and fs = fs and rest = rest] by (simp add: topo_fld_def)

interpretation trx: field_law trx_type_fld "\<lambda>t. [frob_trx_type_to_code t]"
  "\<lambda>t d. d\<lparr>s1_transaction_type := t\<rparr>" "\<lambda>t d. True"
proof
  fix t :: FrobTransactionType and d :: frob_s1
  show "fits trx_type_fld [frob_trx_type_to_code t]"
    by (cases t) (simp_all add: fits_def trx_type_fld_def frob_trx_type_to_code_def)
  show "separated trx_type_fld" by (simp add: separated_def trx_type_fld_def wire_defs)
  show "on_sep trx_type_fld [frob_trx_type_to_code t] (fold (on_char trx_type_fld) [frob_trx_type_to_code t] d)
      = Inr (d\<lparr>s1_transaction_type := t\<rparr>)"
    by (cases t) (simp_all add: trx_type_fld_def frob_trx_type_to_code_def no_char_def)
qed

lemma exec_trx:
  "rl_exec (trx_type_fld # fs) [] d (frob_trx_type_to_code t # FS # rest) =
   rl_exec fs [] (d\<lparr>s1_transaction_type := t\<rparr>) rest"
  using trx.exec [where v = t and d = d and fs = fs and rest = rest] by (simp add: trx_type_fld_def)

lemmas exec_rules = exec_str exec_num exec_flag exec_hex exec_topo exec_trx

section \<open>Well-formed bodies\<close>

definition info_ok :: "frob_device_info \<Rightarrow> bool" where
  "info_ok i \<longleftrightarrow> text_field 4 rl_a (info_version i) \<and> cstr (info_version i) \<noteq> []
     \<and> text_field 20 rl_a (info_vendor i) \<and> text_field 20 rl_a (info_device_type i)
     \<and> text_field 20 rl_a (info_device_id i)"

definition d5_ok :: "frob_d5 \<Rightarrow> bool" where
  "d5_ok d \<longleftrightarrow> list_all (text_field 16 rl_a)
     [key_enter d, key_cancel d, key_check d, key_backspace d, key_delete d, key_up d, key_down d,
      key_left d, key_right d]"

definition amount_ok :: "byte list \<Rightarrow> bool" where
  "amount_ok a \<longleftrightarrow> text_field 12 rl_n a \<and> cstr a \<noteq> []"

definition s1_ok :: "frob_s1 \<Rightarrow> bool" where
  "s1_ok m \<longleftrightarrow> text_field 20 rl_a (s1_ecr_id m) \<and> cstr (s1_ecr_id m) \<noteq> []
     \<and> text_field 20 rl_a (s1_payment_id m) \<and> cstr (s1_payment_id m) \<noteq> []
     \<and> list_all amount_ok [s1_amount_gross m, s1_amount_net m, s1_vat m, s1_cashback m, s1_max_cashback m]
     \<and> text_field 3 rl_a (s1_currency m) \<and> length (cstr (s1_currency m)) = 3"

definition b2_ok :: "frob_b2 \<Rightarrow> bool" where
  "b2_ok m \<longleftrightarrow> info_ok (b2_info m) \<and> unat (b2_result m) < 2 ^ 32
     \<and> length (b2_modulus m) = 256 \<and> length (b2_exponent m) = 3"

definition b3_ok :: "frob_b3 \<Rightarrow> bool" where
  "b3_ok m \<longleftrightarrow> length (b3_kek m) = 256 \<and> length (b3_kcv m) = 3"

definition k0_ok :: "frob_k0 \<Rightarrow> bool" where
  "k0_ok m \<longleftrightarrow> unat (k0_result m) < 2 ^ 32 \<and> text_field 100 rl_a (k0_output m)"

text \<open>
  \<open>wire_ok\<close> holds for the bodies that survive the trip. It excludes T4 and S2, whose serialiser and
  machine disagree, and P1, I1, A1 and A2, which have no machine.
\<close>

fun wire_ok :: "frob_body \<Rightarrow> bool" where
  "wire_ok T1 \<longleftrightarrow> True"
| "wire_ok (T2 i) \<longleftrightarrow> info_ok i"
| "wire_ok T3 \<longleftrightarrow> True"
| "wire_ok (T5 v) \<longleftrightarrow> text_field 4 rl_a v \<and> cstr v \<noteq> []"
| "wire_ok D4 \<longleftrightarrow> True"
| "wire_ok (D5 d) \<longleftrightarrow> d5_ok d"
| "wire_ok (S1 m) \<longleftrightarrow> s1_ok m"
| "wire_ok (B1 i) \<longleftrightarrow> info_ok i"
| "wire_ok (B2 m) \<longleftrightarrow> b2_ok m"
| "wire_ok (B3 m) \<longleftrightarrow> b3_ok m"
| "wire_ok (B4 r) \<longleftrightarrow> unat r < 2 ^ 32"
| "wire_ok (K0 m) \<longleftrightarrow> k0_ok m"
| "wire_ok K1 \<longleftrightarrow> True"
| "wire_ok _ \<longleftrightarrow> False"

text \<open>The type under which a body travels.\<close>

fun body_type :: "frob_body \<Rightarrow> msg_type" where
  "body_type T1 = FROB_T1"
| "body_type (T2 i) = FROB_T2"
| "body_type T3 = FROB_T3"
| "body_type (T4 vs) = FROB_T4"
| "body_type (T5 v) = FROB_T5"
| "body_type D4 = FROB_D4"
| "body_type (D5 d) = FROB_D5"
| "body_type (S1 m) = FROB_S1"
| "body_type (S2 m) = FROB_S2"
| "body_type (I1 m) = FROB_I1"
| "body_type P1 = FROB_P1"
| "body_type A1 = FROB_A1"
| "body_type (A2 m) = FROB_A2"
| "body_type (B1 i) = FROB_B1"
| "body_type (B2 m) = FROB_B2"
| "body_type (B3 m) = FROB_B3"
| "body_type (B4 r) = FROB_B4"
| "body_type (K0 m) = FROB_K0"
| "body_type K1 = FROB_K1"

section \<open>The bodies one by one\<close>

lemma small_words [simp]:
  "unat (w :: 8 word) mod 4294967296 = unat w" "unat (u :: 16 word) mod 4294967296 = unat u"
  "unat (w :: 8 word) < 9223372036854775808" "unat (u :: 16 word) < 9223372036854775808"
  "device_type_code t mod 4294967296 = device_type_code t"
  using unsigned_less [where 'a = nat and w = w] unsigned_less [where 'a = nat and w = u]
    device_type_code_le [of t]
  by simp_all

lemma info_roundtrip:
  assumes "info_ok i"
  shows "rl_exec (info_fields (\<lambda>f. f)) [] zero_info (ops_text (info_ops i)) = Inr (Some (0, []), i, [])"
  using assms
  by (cases i) (clarsimp simp: info_ok_def info_fields_def info_ops_def FCOPY_def exec_rules class_simps
      zero_info_def text_field_copy text_field_class Suc_le_eq)

lemma d5_roundtrip:
  assumes "d5_ok d"
  shows "rl_exec d5_fields [] zero_d5 (ops_text (d5_ops d)) = Inr (Some (0, []), d, [])"
  using assms
  by (cases d) (clarsimp simp: d5_ok_def d5_fields_def d5_number_fields_def d5_key_fields_def d5_flag_fields_def
      d5_ops_def FCOPY_def UCOPY_def exec_rules class_simps zero_d5_def text_field_copy text_field_class
      simp del: bool_text_simps rl_exec.simps(3))

lemma s1_roundtrip:
  assumes "s1_ok m"
  shows "rl_exec s1_fields [] zero_s1 (ops_text (s1_ops m)) = Inr (Some (0, []), m, [])"
  using assms
  by (cases m) (clarsimp simp: s1_ok_def amount_ok_def s1_fields_def s1_ops_def FCOPY_def exec_rules class_simps
      zero_s1_def text_field_copy text_field_class Suc_le_eq simp del: rl_exec.simps(3))

lemma b2_roundtrip:
  assumes "b2_ok m"
  shows "rl_exec b2_fields [] zero_b2 (ops_text (b2_ops m)) = Inr (Some (0, []), m, [])"
proof (cases m)
  case (fields info result modulus exponent)
  show ?thesis
    using assms fields
    by (cases info) (clarsimp simp: b2_ok_def info_ok_def info_fields_def b2_fields_def b2_ops_def info_ops_def
        FCOPY_def exec_rules class_simps zero_b2_def zero_info_def text_field_copy text_field_class Suc_le_eq
        simp del: rl_exec.simps(3))
qed

lemma b3_roundtrip:
  assumes "b3_ok m"
  shows "rl_exec b3_fields [] zero_b3 (ops_text [FCOPY (V_hex (b3_kek m)), FCOPY (V_hex (b3_kcv m))]) =
    Inr (Some (0, []), m, [])"
  using assms
  by (cases m) (clarsimp simp: b3_ok_def b3_fields_def FCOPY_def exec_rules zero_b3_def
      simp del: rl_exec.simps(3))

lemma k0_roundtrip:
  assumes "k0_ok m"
  shows "rl_exec k0_fields [] zero_k0 (ops_text [FCOPY (V_int (unat (k0_result m))), FCOPY (V_string (k0_output m))]) =
    Inr (Some (0, []), m, [])"
  using assms
  by (cases m) (clarsimp simp: k0_ok_def k0_fields_def FCOPY_def exec_rules zero_k0_def class_simps
      text_field_copy text_field_class simp del: rl_exec.simps(3))

lemma b4_roundtrip:
  assumes "unat r < 2 ^ 32"
  shows "rl_exec [num_fld (\<lambda>f. f)] [] 0 (ops_text [FCOPY (V_int (unat (r :: 64 word)))]) = Inr (Some (0, []), r, [])"
  using assms by (clarsimp simp: FCOPY_def exec_rules simp del: rl_exec.simps(3))

lemma t5_roundtrip:
  assumes "text_field 4 rl_a v" "cstr v \<noteq> []"
  shows "rl_exec [text_fld rl_a (Suc 0) None FS (\<lambda>f. f)] [] (zeros 4) (ops_text [FCOPY (V_string v)]) =
    Inr (Some (0, []), v, [])"
  using assms by (clarsimp simp: FCOPY_def exec_rules class_simps text_field_copy text_field_class Suc_le_eq
      simp del: rl_exec.simps(3))

lemmas body_roundtrips = info_roundtrip d5_roundtrip s1_roundtrip b2_roundtrip b3_roundtrip k0_roundtrip
  b4_roundtrip t5_roundtrip

end
