(* ===== verification/Messages.thy ===== *)
theory Messages
  imports Roundtrip
begin

text \<open>
  A message on the wire: header, body and frame together. \<open>serialize\<close> followed by the frame finder
  and \<open>parse_message\<close> gives the message back.
\<close>

section \<open>No field contains a frame character\<close>

definition clean :: "byte list \<Rightarrow> bool" where
  "clean w \<longleftrightarrow> list_all (\<lambda>b. rl_a b \<or> b = FS \<or> b = US) w"

lemma clean_simps [simp]:
  "clean []" "clean (b # w) \<longleftrightarrow> (rl_a b \<or> b = FS \<or> b = US) \<and> clean w" "clean (v @ w) \<longleftrightarrow> clean v \<and> clean w"
  by (simp_all add: clean_def)

lemma clean_frame: "clean w \<Longrightarrow> ETX \<notin> set w \<and> STX \<notin> set w"
proof -
  have "\<not> rl_a ETX \<and> \<not> rl_a STX" "ETX \<notin> {FS, US}" "STX \<notin> {FS, US}"
    by (simp add: class_simps) (simp_all add: wire_defs)
  then show "clean w \<Longrightarrow> ETX \<notin> set w \<and> STX \<notin> set w" by (auto simp: clean_def list_all_iff)
qed

lemma clean_class: "list_all rl_a w \<Longrightarrow> clean w" "list_all rl_n w \<Longrightarrow> clean w" "list_all rl_h w \<Longrightarrow> clean w"
  by (auto simp: clean_def list_all_iff class_mono)

lemma clean_fields [simp]:
  "clean (print_u n)" "clean (print_X n)" "clean (hex_text bs)"
  by (simp_all add: clean_class hex_text_digits)

lemma clean_bool [simp]: "clean (bool_text b)"
  by (simp only: bool_text_def clean_fields)

lemma clean_trx [simp]: "rl_a (frob_trx_type_to_code t)"
  by (cases t) (simp_all add: frob_trx_type_to_code_def rl_a_def)

lemma clean_text: "text_field n rl_a a \<Longrightarrow> clean (cstr a)" "text_field n rl_n a \<Longrightarrow> clean (cstr a)"
  by (auto dest: text_field_class intro: clean_class)

lemma info_clean: "info_ok i \<Longrightarrow> clean (ops_text (info_ops i))"
  by (clarsimp simp: info_ok_def info_ops_def FCOPY_def clean_text)

section \<open>Bodies\<close>

lemma info_ops_good [simp]: "list_all op_good (info_ops i)"
  by (simp add: info_ops_def FCOPY_def)

text \<open>What is written for a well-formed body is read back.\<close>

lemma body_roundtrip:
  assumes "wire_ok b"
  obtains ops where "body_ops (body_type b) b = Inr ops" "list_all op_good ops" "clean (ops_text ops)"
    "frob_body_extract (body_type b) (ops_text ops) out = Inr (0, b, [])"
proof (cases b)
  case T1
  then show thesis by (intro that [of "[]"])
    (simp_all add: body_ops_def frob_body_extract_def frob_enum extract_defs run_machine_def)
next
  case (T2 i)
  with assms show thesis by (intro that [of "info_ops i"])
    (simp_all add: body_ops_def frob_body_extract_def frob_enum extract_defs run_machine_def body_roundtrips info_clean)
next
  case T3
  then show thesis by (intro that [of "[]"])
    (simp_all add: body_ops_def frob_body_extract_def frob_enum extract_defs run_machine_def)
next
  case (T5 v)
  with assms show thesis by (intro that [of "[FCOPY (V_string v)]"])
    (simp_all add: body_ops_def frob_body_extract_def frob_enum extract_defs run_machine_def body_roundtrips
      del: ops_text_simps, auto simp add: FCOPY_def clean_text)
next
  case D4
  then show thesis by (intro that [of "[]"])
    (simp_all add: body_ops_def frob_body_extract_def frob_enum extract_defs run_machine_def)
next
  case (D5 d)
  have "list_all op_good (d5_ops d)" by (simp add: d5_ops_def FCOPY_def UCOPY_def)
  moreover have "clean (ops_text (d5_ops d))"
    using assms D5 by (clarsimp simp: d5_ok_def d5_ops_def FCOPY_def UCOPY_def clean_text simp del: bool_text_simps)
  ultimately show thesis using D5 assms by (intro that [of "d5_ops d"])
    (simp_all add: body_ops_def frob_body_extract_def frob_enum extract_defs run_machine_def body_roundtrips)
next
  case (S1 m)
  have "list_all op_good (s1_ops m)" by (simp add: s1_ops_def FCOPY_def)
  moreover have "clean (ops_text (s1_ops m))"
    using assms S1 by (clarsimp simp: s1_ok_def amount_ok_def s1_ops_def FCOPY_def clean_text)
  ultimately show thesis using S1 assms by (intro that [of "s1_ops m"])
    (simp_all add: body_ops_def frob_body_extract_def frob_enum extract_defs run_machine_def body_roundtrips)
next
  case (B1 i)
  with assms show thesis by (intro that [of "info_ops i"])
    (simp_all add: body_ops_def frob_body_extract_def frob_enum extract_defs run_machine_def body_roundtrips info_clean)
next
  case (B2 m)
  have "list_all op_good (b2_ops m)" by (simp add: b2_ops_def FCOPY_def)
  moreover have "clean (ops_text (b2_ops m))"
    using assms B2 by (clarsimp simp: b2_ok_def b2_ops_def FCOPY_def info_clean)
  ultimately show thesis using B2 assms by (intro that [of "b2_ops m"])
    (simp_all add: body_ops_def frob_body_extract_def frob_enum extract_defs run_machine_def body_roundtrips)
next
  case (B3 m)
  with assms show thesis by (intro that [of "[FCOPY (V_hex (b3_kek m)), FCOPY (V_hex (b3_kcv m))]"])
    (simp_all add: body_ops_def frob_body_extract_def frob_enum extract_defs run_machine_def body_roundtrips
      del: ops_text_simps, simp_all add: FCOPY_def)
next
  case (B4 r)
  with assms show thesis by (intro that [of "[FCOPY (V_int (unat r))]"])
    (simp_all add: body_ops_def frob_body_extract_def frob_enum extract_defs run_machine_def body_roundtrips
      del: ops_text_simps, simp_all add: FCOPY_def)
next
  case (K0 m)
  with assms show thesis by (intro that [of "[FCOPY (V_int (unat (k0_result m))), FCOPY (V_string (k0_output m))]"])
    (simp_all add: body_ops_def frob_body_extract_def frob_enum extract_defs run_machine_def body_roundtrips
      del: ops_text_simps, auto simp: FCOPY_def k0_ok_def clean_text)
next
  case K1
  then show thesis by (intro that [of "[]"])
    (simp_all add: body_ops_def frob_body_extract_def frob_enum extract_defs run_machine_def)
qed (use assms in simp_all)

section \<open>Headers\<close>

text \<open>The name of every type that has a machine is one the header grammar reads back.\<close>

lemma body_type_name:
  assumes "wire_ok b"
  obtains c n where "frob_type_to_string (body_type b) = Inr (c, n)" "letter_ok c" "number_ok c n"
    "deserialize_type c n = body_type b" "rl_a c" "rl_a n"
  using assms
  by (cases b) (auto simp: frob_enum letter_ok_def number_ok_def rl_a_def is_digit_def)

lemma token_roundtrip: "of_nat (strtoul16 (print_X (unat (t :: 32 word)))) = t"
proof -
  have "unat t < 2 ^ 32" using unsigned_less [where 'a = nat and w = t] by simp
  then show ?thesis by (simp add: strtoul_print)
qed

lemma payload_text:
  assumes "frob_type_to_string (hdr_type h) = Inr (c, n)"
  shows "payload h ops = header_text (print_X (unat (hdr_token h))) c n @ ops_text ops"
  using assms by (simp add: payload_def header_text_def FCOPY_def)

lemma token_header_ok:
  assumes "unat (t :: 32 word) < 2 ^ 24" "letter_ok c" "number_ok c n"
  shows "header_ok (print_X (unat t)) c n"
  using assms token_text_length [OF assms(1)] print_nonempty(2) [of "unat t"]
  by (simp add: header_ok_def Suc_le_eq)

section \<open>Whole messages\<close>

definition msg_ok :: "frob_msg \<Rightarrow> bool" where
  "msg_ok m \<longleftrightarrow> msg_magic m = FROB_MAGIC \<and> wire_ok (msg_body m) \<and> hdr_type (msg_header m) = body_type (msg_body m)
     \<and> unat (hdr_token (msg_header m)) < 2 ^ 24 \<and> msg_attr m = zero_attr"

text \<open>The message as a run of copy operations, for messages that have one.\<close>

definition msg_ops :: "frob_msg \<Rightarrow> ser_op list" where
  "msg_ops m = (case body_ops (hdr_type (msg_header m)) (msg_body m) of Inl _ \<Rightarrow> [] | Inr ops \<Rightarrow> ops)"

definition wire_text :: "frob_msg \<Rightarrow> byte list" where
  "wire_text m = frame_of (payload (msg_header m) (msg_ops m))"

definition wire_need :: "frob_msg \<Rightarrow> nat" where
  "wire_need m = frame_need (msg_header m) (msg_ops m)"

lemma msg_ok_facts:
  assumes "msg_ok m"
  shows "body_ops (hdr_type (msg_header m)) (msg_body m) = Inr (msg_ops m)"
    "list_all op_good (msg_ops m)" "header_good (msg_header m)"
    "clean (payload (msg_header m) (msg_ops m))"
    "\<And>t a. t = 0 \<or> t = body_type (msg_body m) \<Longrightarrow>
      parse_message (payload (msg_header m) (msg_ops m))
        \<lparr>msg_magic = FROB_MAGIC, msg_header = \<lparr>hdr_type = t, hdr_token = a\<rparr>, msg_body = T1, msg_attr = zero_attr\<rparr>
      = Inr (0, m)"
proof -
  let ?b = "msg_body m"
  have b: "wire_ok ?b" "hdr_type (msg_header m) = body_type ?b" "unat (hdr_token (msg_header m)) < 2 ^ 24"
    using assms by (auto simp: msg_ok_def)
  obtain ops where ops: "body_ops (body_type ?b) ?b = Inr ops" "list_all op_good ops" "clean (ops_text ops)"
    "frob_body_extract (body_type ?b) (ops_text ops) T1 = Inr (0, ?b, [])"
    using body_roundtrip [OF b(1), of T1] by blast
  obtain c n where cn: "frob_type_to_string (body_type ?b) = Inr (c, n)" "letter_ok c" "number_ok c n"
    "deserialize_type c n = body_type ?b" "rl_a c" "rl_a n"
    using body_type_name [OF b(1)] by blast
  have m: "msg_ops m = ops" using ops(1) b(2) by (simp add: msg_ops_def)
  show "body_ops (hdr_type (msg_header m)) (msg_body m) = Inr (msg_ops m)" "list_all op_good (msg_ops m)"
    "header_good (msg_header m)"
    using ops b cn m by (auto simp: header_good_def)
  have p: "payload (msg_header m) ops = header_text (print_X (unat (hdr_token (msg_header m)))) c n @ ops_text ops"
    using payload_text cn(1) b(2) by simp
  show "clean (payload (msg_header m) (msg_ops m))"
    using p m ops(3) cn(5,6) by (simp add: header_text_def)
  fix t a assume t: "t = 0 \<or> t = body_type ?b"
  have "frob_header_extract (payload (msg_header m) ops) \<lparr>hdr_type = t, hdr_token = a\<rparr> =
      Inr (0, msg_header m, ops_text ops)"
    unfolding p header_extract_text [OF token_header_ok [OF b(3) cn(2,3)]]
    using t b(2) cn(4) by (auto simp: token_roundtrip)
  then show "parse_message (payload (msg_header m) (msg_ops m))
        \<lparr>msg_magic = FROB_MAGIC, msg_header = \<lparr>hdr_type = t, hdr_token = a\<rparr>, msg_body = T1, msg_attr = zero_attr\<rparr>
      = Inr (0, m)"
    using ops(4) b(2) assms m by (simp add: parse_message_def Let_def msg_ok_def)
qed

section \<open>serialize then parse\<close>

lemma msg_ok_blank: "blank_msg t = \<lparr>msg_magic = FROB_MAGIC, msg_header = \<lparr>hdr_type = t, hdr_token = 0\<rparr>,
    msg_body = T1, msg_attr = zero_attr\<rparr>"
  by (simp add: blank_msg_def)

lemma payload_nonempty [simp]: "payload h ops \<noteq> []"
  by (simp add: payload_def FCOPY_def)

lemma serialize_ok:
  assumes "msg_ok m" "length (wire_text m) \<le> s" "wire_need m \<le> length buf"
  shows "\<exists>buf'. serialize s buf m = Inr (int (length (wire_text m)), buf')
    \<and> take (length (wire_text m)) buf' = wire_text m \<and> length buf' = length buf"
proof -
  note f = msg_ok_facts [OF assms(1)]
  have "msg_magic m = FROB_MAGIC" "hdr_type (msg_header m) = body_type (msg_body m)"
    using assms(1) by (auto simp: msg_ok_def)
  then show ?thesis
    using serialize_frame [OF f(3,1,2) _ refl, of s buf m] clean_frame [OF f(4)] assms(2,3) f(5)
    by (simp add: wire_text_def wire_need_def blank_msg_def del: frame_of_length)
qed

lemma find_wire_text:
  assumes "msg_ok m"
  shows "find_frame (wire_text m @ rest) = Some (1, length (wire_text m) - 2, True)"
  using find_frame_body [of "[]" "payload (msg_header m) (msg_ops m)"
      "lrc_loop 0 (payload (msg_header m) (msg_ops m) @ [ETX])" rest]
    clean_frame [OF msg_ok_facts(4) [OF assms]]
  by (simp add: wire_text_def frame_of_def)

lemma wire_inner: "drop 1 (take (length (wire_text m) - 2) (wire_text m @ rest)) = payload (msg_header m) (msg_ops m)"
  by (simp add: wire_text_def frame_of_def)

text \<open>The receiver: find the frame, parse what is between STX and ETX.\<close>

definition receive :: "byte list \<Rightarrow> (int \<times> frob_msg) option outcome" where
  "receive inp =
     (case frob_frame_process inp (fresh_fsm 0 (length inp)) of (e, st) \<Rightarrow>
        if e \<noteq> 0 then Inr None
        else (case fst_pe st of
            None \<Rightarrow> Inr None
          | Some pe \<Rightarrow> rbind (parse_message (drop (fst_p st) (take pe inp)) (blank_msg 0)) (\<lambda>r. Inr (Some r))))"

lemma receive_wire_text:
  assumes "msg_ok m"
  shows "receive (wire_text m @ rest) = Inr (Some (0, m))"
  using process_find_frame [of "wire_text m @ rest"] find_wire_text [OF assms, of rest] wire_inner [of m rest]
    msg_ok_facts(5) [OF assms, of 0 0]
  by (auto simp: receive_def blank_msg_def split: prod.splits)

section \<open>How large a message can be\<close>

text \<open>An upper bound of what an operation writes and touches, from the sizes of the arrays alone.\<close>

fun field_bound :: "field_value \<Rightarrow> nat" where
  "field_bound (V_token t) = 9"
| "field_bound (V_type t) = 3"
| "field_bound (V_trx t) = 2"
| "field_bound (V_string a) = length a + 1"
| "field_bound (V_hex bs) = 2 * length bs + 2"
| "field_bound (V_bool b) = 2"
| "field_bound (V_int n) = 11"

fun op_bound :: "ser_op \<Rightarrow> nat" where
  "op_bound (DCOPY v d) = field_bound v"
| "op_bound op = 1"

lemma field_text_bound: "length (field_text v) + 1 \<le> field_bound v" "field_reach v \<le> field_bound v"
proof -
  have X: "length (print_X (unat (t :: 32 word))) < 9" for t
    by (rule le_less_trans [OF print_X_length [of _ 8]]) (use unsigned_less [where 'a = nat and w = t] in simp_all)
  have U: "length (print_u (n mod 4294967296)) < 11" for n :: nat
    by (rule le_less_trans [OF print_u_length [of _ 10]]) (simp_all add: order_less_le_trans [OF mod_less_divisor])
  have T: "length (case frob_type_to_string t of Inl _ \<Rightarrow> [] | Inr (c, n) \<Rightarrow> [c, n]) < 3" for t
    by (simp split: sum.split prod.split)
  have B: "length (bool_text b) = 1" for b
    by (cases b) simp_all
  show "length (field_text v) + 1 \<le> field_bound v"
    using X U T B cstr_length by (cases v) (simp_all add: Suc_le_eq less_Suc_eq_le)
  then show "field_reach v \<le> field_bound v"
    by (cases v) simp_all
qed

lemma ops_need_bound: "ops_need ops \<le> sum_list (map op_bound ops)"
proof (induction ops)
  case (Cons op ops)
  have "op_reach op \<le> op_bound op" "length (op_text op) \<le> op_bound op"
    using field_text_bound by (cases op; simp)+
  with Cons show ?case by (simp add: add_mono trans_le_add1)
qed simp

lemma ops_text_bound: "length (ops_text ops) \<le> sum_list (map op_bound ops)"
proof (induction ops)
  case (Cons op ops)
  have "length (op_text op) \<le> op_bound op" using field_text_bound by (cases op; simp)
  with Cons show ?case by simp
qed simp

lemma wire_bound:
  "wire_need m \<le> 16 + sum_list (map op_bound (msg_ops m))"
  "length (wire_text m) \<le> 16 + sum_list (map op_bound (msg_ops m))"
proof -
  have "ops_need (head_ops (msg_header m) @ msg_ops m @ [BCOPY ETX]) \<le> 14 + sum_list (map op_bound (msg_ops m))"
    using ops_need_bound [of "head_ops (msg_header m) @ msg_ops m @ [BCOPY ETX]"]
    by (simp add: head_ops_def FCOPY_def)
  moreover have len: "length (frame_of (payload (msg_header m) (msg_ops m))) \<le> 16 + sum_list (map op_bound (msg_ops m))"
    using ops_text_bound [of "head_ops (msg_header m) @ msg_ops m @ [BCOPY ETX]"]
      frame_ops_length [of "msg_header m" "msg_ops m"]
    by (simp add: head_ops_def FCOPY_def del: ops_text_simps)
  ultimately show "wire_need m \<le> 16 + sum_list (map op_bound (msg_ops m))"
    by (simp add: wire_need_def frame_need_def)
  show "length (wire_text m) \<le> 16 + sum_list (map op_bound (msg_ops m))"
    using len by (simp add: wire_text_def)
qed

end
