(* ===== verification/Divergence.thy ===== *)
theory Divergence
  imports Messages Parser_Facts
begin

text \<open>
  The messages that do not survive the trip from \<open>serialization.c\<close> to \<open>fsm/body.rl\<close>: those without a
  machine, T4, whose versions are separated differently, and S2, where the serialiser leaves out a
  field.
\<close>

section \<open>Messages without a machine\<close>

lemma parse_no_machine:
  assumes "t \<in> {FROB_P1, FROB_A1, FROB_I1, FROB_A2}"
  shows "parse_message inp (blank_msg t) \<noteq> Inr (0, q)"
proof -
  have nz: "t \<noteq> 0" using assms by (auto simp: frob_enum)
  obtain r hdr rest where h: "frob_header_extract inp \<lparr>hdr_type = t, hdr_token = 0\<rparr> = Inr (r, hdr, rest)"
    using header_extract_total by blast
  have bail: "log_bytes inp (Inr (- 1 :: int, m)) \<noteq> Inr (0, q)" for m :: frob_msg
    by (cases "inp = []") simp_all
  show ?thesis
  proof (cases "r = 0")
    case True
    then obtain tk c n where "inp = header_text tk c n @ rest" "header_ok tk c n"
      using header_extract_sound [OF h] by (auto simp: errno_defs)
    then have "hdr_type hdr = t"
      using h True nz by (auto simp: header_extract_text errno_defs split: if_splits)
    then show ?thesis
      using h True assms bail by (auto simp: parse_message_def Let_def frob_body_extract_def frob_enum errno_defs)
  next
    case False
    then show ?thesis using h bail by (simp add: parse_message_def Let_def)
  qed
qed

lemma serialize_no_machine:
  assumes "hdr_type (msg_header m) \<in> {FROB_P1, FROB_A1, FROB_I1, FROB_A2}" "serialize s buf m = Inr (n, mem)"
  shows "n \<le> 0"
proof (rule ccontr)
  assume "\<not> n \<le> 0"
  then obtain inp q where "parse_message inp (blank_msg (hdr_type (msg_header m))) = Inr (0, q)"
    using assms(2) by (auto simp: serialize_def rbind_eq_Inr Let_def split: if_splits)
  then show False using parse_no_machine [OF assms(1)] by blast
qed

section \<open>T4\<close>

definition version_ok :: "byte list \<Rightarrow> bool" where
  "version_ok v \<longleftrightarrow> text_field 4 rl_a v"

lemma t4_exec_run:
  "list_all rl_a w \<Longrightarrow> t4_exec ord i run vs (w @ US # rest) = Inr (vs, US # rest)"
proof -
  have "US \<noteq> FS" "\<not> rl_a US" by (simp add: wire_defs) (simp add: class_simps)
  then show "list_all rl_a w \<Longrightarrow> t4_exec ord i run vs (w @ US # rest) = Inr (vs, US # rest)"
    by (induction w arbitrary: run) auto
qed

definition units :: "byte list list \<Rightarrow> byte list" where
  "units ws = concat (map (\<lambda>w. w @ [US]) ws)"

lemma units_simps [simp]: "units [] = []" "units (w # ws) = w @ US # units ws"
  by (simp_all add: units_def)

lemma attrs_run:
  "list_all rl_a w \<Longrightarrow>
   attrs_exec ord (AT_open seen run) i out (w @ US # rest) =
   (if i < 19 then rbind (COPY_next ord 3 i out (run @ w)) (\<lambda>(i', out'). attrs_exec ord (AT_open True []) i' out' rest)
    else attrs_exec ord (AT_open True []) i out rest)"
  by (induction w arbitrary: run) (auto simp: class_simps)

text \<open>
  Where attribute texts end up when the last argument of a call is evaluated first: one element behind the
  next one for texts of one or two characters, two behind it for longer ones, none for an empty text, which
  skips two elements. \<open>None\<close> is a store behind the array.
\<close>

fun place :: "nat \<Rightarrow> byte list list \<Rightarrow> byte list list \<Rightarrow> byte list list option" where
  "place i attr [] = Some attr"
| "place i attr (w # ws) =
     (if 19 \<le> i then Some attr
      else if w = [] then place (i + 2) attr ws
      else let slot = (if length w < 3 then i + 1 else i + 2) in
        if slot < 19 then place (slot + 1) (attr[slot := cut 3 w]) ws else None)"

lemma place_full: "19 \<le> i \<Longrightarrow> place i attr ws = Some attr"
  by (cases ws) simp_all

lemma attrs_units:
  assumes "list_all (list_all rl_a) ws" "length out = 19" "seen \<or> ws \<noteq> []" "\<forall>j \<ge> i. j < 19 \<longrightarrow> out ! j = zeros 3"
  shows "attrs_exec Right_To_Left (AT_open seen []) i out (units ws @ [FS]) =
    (case place i out ws of None \<Rightarrow> Inl Out_Of_Bounds_Write | Some attr \<Rightarrow> Inr (AT_final, attr, []))"
  using assms
proof (induction ws arbitrary: i out seen)
  case Nil
  then show ?case by (simp add: class_simps) (simp add: wire_defs)
next
  case (Cons w ws)
  have w: "list_all rl_a w" "list_all (list_all rl_a) ws" using Cons.prems(1) by simp_all
  have IH: "length out' = 19 \<Longrightarrow> \<forall>j \<ge> i'. j < 19 \<longrightarrow> out' ! j = zeros 3 \<Longrightarrow>
      attrs_exec Right_To_Left (AT_open True []) i' out' (units ws @ [FS]) =
      (case place i' out' ws of None \<Rightarrow> Inl Out_Of_Bounds_Write | Some attr \<Rightarrow> Inr (AT_final, attr, []))" for i' out'
    using Cons.IH w(2) by simp
  show ?case
  proof (cases "i < 19")
    case False
    then show ?thesis using attrs_run [OF w(1)] IH [of out i] Cons.prems(2,4) by (simp add: place_full)
  next
    case True
    let ?slot = "if length w < 3 then i + 1 else i + 2"
    have copy: "COPY_next Right_To_Left 3 i out w =
        (if w \<noteq> [] \<and> 19 \<le> ?slot then Inl Out_Of_Bounds_Write else Inr (?slot + 1, out[?slot := copy_into (out ! ?slot) w]))"
      using Cons.prems(2) by (simp add: COPY_next_def min_evals_def)
    show ?thesis
    proof (cases "?slot < 19")
      case slot: True
      then have o: "out ! ?slot = zeros 3" using Cons.prems(4) by auto
      have z: "\<forall>j \<ge> ?slot + 1. j < 19 \<longrightarrow> out[?slot := cut 3 w] ! j = zeros 3" "length (out[?slot := cut 3 w]) = 19"
        using Cons.prems(2,4) by auto
      have same: "out[?slot := cut 3 w] = out" if "w = []" using that o by (metis cut_nil list_update_id)
      show ?thesis
        using attrs_run [OF w(1)] True slot copy IH [OF z(2,1)] o same
        by (cases "w = []") (simp_all add: copy_cut Let_def)
    next
      case slot: False
      then show ?thesis
        using attrs_run [OF w(1)] True copy IH [of out "i + 2"] Cons.prems(2,4)
        by (cases "w = []") (auto simp: Let_def list_update_beyond)
    qed
  qed
qed

text \<open>Nothing overflows when what is behind the fifth text is empty; six long texts do overflow.\<close>

lemma place_empty: "list_all (\<lambda>w. w = []) ws \<Longrightarrow> place i attr ws \<noteq> None"
  by (induction ws arbitrary: i) auto

lemma place_fits:
  "list_all (\<lambda>w. w = []) (drop n ws) \<Longrightarrow> i + 3 * n \<le> 18 \<Longrightarrow> place i attr ws \<noteq> None"
proof (induction n arbitrary: i attr ws)
  case 0
  then show ?case using place_empty by simp
next
  case (Suc n)
  show ?case
  proof (cases ws)
    case (Cons w ws')
    have "place j a ws' \<noteq> None" if "j \<le> i + 3" for j a
      using Suc.IH [of ws' j a] Suc.prems Cons that by simp
    then show ?thesis using Suc.prems(2) Cons by (simp add: Let_def)
  qed simp
qed

lemma place_overflows:
  assumes "list_all (\<lambda>w. 3 \<le> length w) (take 6 ws)" "6 \<le> length ws"
  shows "place 2 attr ws = None"
proof -
  obtain a b c d e f rest where "ws = a # b # c # d # e # f # rest"
    using assms(2) by (auto simp: numeral_eq_Suc Suc_le_length_iff)
  then show ?thesis using assms(1) by (auto simp: Let_def)
qed

lemma t4_text: "ops_text (t4_ops vs) = units (map cstr vs) @ [FS]"
  by (induction vs) (simp_all add: t4_ops_def UCOPY_def ops_text_def)

text \<open>
  The versions written are all lost: the first is skipped, the others become attributes.
\<close>

lemma t4_parse:
  assumes "unat (t :: 32 word) < 2 ^ 24" "vs = v # vs'" "list_all version_ok vs"
  shows "parse_message (payload \<lparr>hdr_type = FROB_T4, hdr_token = t\<rparr> (t4_ops vs)) (blank_msg FROB_T4) =
    (case place 2 zero_attr (map cstr vs') of
       None \<Rightarrow> Inl Out_Of_Bounds_Write
     | Some attr \<Rightarrow> Inr (0, \<lparr>msg_magic = FROB_MAGIC, msg_header = \<lparr>hdr_type = FROB_T4, hdr_token = t\<rparr>,
         msg_body = T4 zero_t4, msg_attr = attr\<rparr>))"
proof -
  have ok: "letter_ok 0x54" "number_ok 0x54 0x34" by (simp_all add: letter_ok_def number_ok_def)
  have p: "payload \<lparr>hdr_type = FROB_T4, hdr_token = t\<rparr> (t4_ops vs) =
      header_text (print_X (unat t)) 0x54 0x34 @ cstr v @ US # units (map cstr vs') @ [FS]"
    using assms(2) by (subst payload_text [where c = "0x54" and n = "0x34"]) (simp_all add: frob_enum t4_text)
  have cls: "list_all (list_all rl_a) (map cstr vs)"
    using assms(3) by (auto simp: list_all_iff version_ok_def text_field_def)
  then have t4: "t4_exec ord 0 [] zero_t4 (cstr v @ US # units (map cstr vs') @ [FS]) = Inr (zero_t4, US # units (map cstr vs') @ [FS])" for ord
    using assms(2) by (simp add: t4_exec_run)
  have z: "length zero_attr = 19" "\<forall>j < 19. zero_attr ! j = zeros 3" by (simp_all add: zero_attr_def nth_replicate)
  have u: "US # units (map cstr vs') @ [FS] = units ([] # map cstr vs') @ [FS]" by simp
  have first: "place 2 zero_attr (map cstr vs') = place 0 zero_attr ([] # map cstr vs')" by (simp add: numeral_2_eq_2)
  have "attrs_exec Right_To_Left (AT_open False []) 0 zero_attr (units ([] # map cstr vs') @ [FS]) =
      (case place 0 zero_attr ([] # map cstr vs') of None \<Rightarrow> Inl Out_Of_Bounds_Write | Some attr \<Rightarrow> Inr (AT_final, attr, []))"
    using cls assms(2) z by (intro attrs_units) simp_all
  then have at: "attrs_exec argument_order (AT_open False []) 0 zero_attr (US # units (map cstr vs') @ [FS]) =
      (case place 2 zero_attr (map cstr vs') of None \<Rightarrow> Inl Out_Of_Bounds_Write | Some attr \<Rightarrow> Inr (AT_final, attr, []))"
    by (simp only: argument_order_def u first)
  show ?thesis
    unfolding p
    using header_extract_text [OF token_header_ok [OF assms(1) ok], of _ "\<lparr>hdr_type = FROB_T4, hdr_token = 0\<rparr>"] token_roundtrip [of t] t4 at
    by (simp add: parse_message_def Let_def frob_enum frob_body_extract_def extract_t4_def
        frob_extract_additional_attributes_def attrs_final_def blank_msg_def split: option.split)
qed

section \<open>S2\<close>

definition s2_ok :: "frob_s2 \<Rightarrow> bool" where
  "s2_ok m \<longleftrightarrow> unat (s2_error m) < 2 ^ 32 \<and> length (s2_card_token m) = 32
     \<and> text_field 20 rl_a (s2_mid m) \<and> text_field 20 rl_a (s2_tid m) \<and> text_field 12 rl_n (s2_trx_amount m)
     \<and> text_field 12 rl_n (s2_cashback m) \<and> text_field 40 rl_a (s2_payment_method m) \<and> text_field 80 rl_a (s2_msg m)"

text \<open>What is read when the payment method happens to be a number: every field after the missing one moved.\<close>

definition s2_shifted :: "frob_s2 \<Rightarrow> frob_s2" where
  "s2_shifted m = m\<lparr>s2_trx_id := copy_into (zeros 20) (cstr (s2_trx_amount m)),
     s2_trx_amount := s2_cashback m,
     s2_cashback := copy_into (zeros 12) (cstr (s2_payment_method m)),
     s2_payment_method := copy_into (zeros 40) (cstr (s2_msg m)),
     s2_msg := zeros 80\<rparr>"

lemma digits_text: "list_all rl_n w \<Longrightarrow> list_all rl_a w"
  by (auto simp: list_all_iff class_mono)

lemma s2_shift_exec:
  assumes "s2_ok m" "list_all rl_n (cstr (s2_payment_method m))"
  shows "rl_exec s2_fields [] zero_s2 (ops_text (s2_ops m)) = Inr (Some (1, []), s2_shifted m, [])"
  using assms
  by (cases m) (clarsimp simp: s2_ok_def s2_fields_def s2_ops_def s2_shifted_def FCOPY_def exec_rules class_simps
      zero_s2_def text_field_copy text_field_class digits_text simp del: rl_exec.simps(3))

lemma exec_bad:
  assumes "list_all c w" "\<not> c x" "x \<noteq> s"
  shows "rl_exec (text_fld c l None s upd # fs) [] d (w @ x # rest) = Inr (None, d, x # rest)"
proof -
  let ?f = "text_fld c l None s upd"
  have "rl_exec (?f # fs) [] d (w @ x # rest) = rl_exec (?f # fs) w (fold (on_char ?f) w d) (x # rest)"
    using rl_exec_run [of ?f w "[]" fs d "x # rest"] assms(1) by (simp add: text_fld_def)
  then show ?thesis using assms(2,3) by (simp add: text_fld_def)
qed

lemma first_bad:
  assumes "\<not> list_all c v"
  obtains w x y where "v = w @ x # y" "list_all c w" "\<not> c x"
proof -
  have "\<exists>x \<in> set v. \<not> c x" using assms by (auto simp: list_all_iff)
  then obtain w x y where "v = w @ x # y" "\<not> c x" "\<forall>z \<in> set w. \<not> \<not> c z"
    using split_list_first_prop [of v "\<lambda>x. \<not> c x"] by blast
  then show thesis using that by (auto simp: list_all_iff)
qed

lemma s2_bad_exec:
  assumes "s2_ok m" "\<not> list_all rl_n (cstr (s2_payment_method m))"
  shows "\<exists>d rest. rl_exec s2_fields [] zero_s2 (ops_text (s2_ops m)) = Inr (None, d, rest)"
proof -
  obtain w x y where w: "cstr (s2_payment_method m) = w @ x # y" "list_all rl_n w" "\<not> rl_n x"
    using first_bad [OF assms(2)] by blast
  have "rl_a x" using assms(1) w(1) by (auto simp: s2_ok_def text_field_def)
  then have "x \<noteq> FS" using class_simps by auto
  then show ?thesis
    using assms(1) w
    by (cases m) (clarsimp simp: s2_ok_def s2_fields_def s2_ops_def FCOPY_def exec_rules class_simps
        zero_s2_def text_field_copy text_field_class digits_text exec_bad simp del: rl_exec.simps(3))
qed

text \<open>The serialiser's own check then fails, in any buffer the frame fits into.\<close>

lemma serialize_unparsable:
  assumes "header_good (msg_header msg)" "body_ops (hdr_type (msg_header msg)) (msg_body msg) = Inr ops"
    "list_all op_good ops" and p: "p = payload (msg_header msg) ops" "ETX \<notin> set p"
    and fit: "length (frame_of p) \<le> s" "frame_need (msg_header msg) ops \<le> length buf"
    and parse: "parse_message p (blank_msg (hdr_type (msg_header msg))) = Inr (r, m)" "r \<noteq> 0"
  shows "serialize s buf msg = Inl Assert_Failed"
proof -
  obtain st where st: "write_frame s buf msg = Inr (True, st)"
    "wrote \<lparr>ser_mem = buf, ser_cur = 0, ser_free = s\<rparr> (frame_of p) st"
    using write_frame_stores assms by blast
  then have facts: "ser_cur st = length (frame_of p)" "take (length (frame_of p)) (ser_mem st) = frame_of p"
    by (auto simp: wrote_def)
  then show ?thesis
    using st(1) parse
    by (simp only: serialize_def Let_def facts frame_of_inner rbind_simps if_True case_prod_conv simp_thms)
      (simp add: c_assert_def)
qed

lemma s2_payload:
  assumes "unat (t :: 32 word) < 2 ^ 24"
  shows "payload \<lparr>hdr_type = FROB_S2, hdr_token = t\<rparr> ops = header_text (print_X (unat t)) 0x53 0x32 @ ops_text ops"
    "frob_header_extract (payload \<lparr>hdr_type = FROB_S2, hdr_token = t\<rparr> ops) \<lparr>hdr_type = FROB_S2, hdr_token = 0\<rparr> =
      Inr (0, \<lparr>hdr_type = FROB_S2, hdr_token = t\<rparr>, ops_text ops)"
proof -
  have ok: "letter_ok 0x53" "number_ok 0x53 0x32" by (simp_all add: letter_ok_def number_ok_def)
  show p: "payload \<lparr>hdr_type = FROB_S2, hdr_token = t\<rparr> ops = header_text (print_X (unat t)) 0x53 0x32 @ ops_text ops"
    by (subst payload_text [where c = "0x53" and n = "0x32"]) (simp_all add: frob_enum)
  show "frob_header_extract (payload \<lparr>hdr_type = FROB_S2, hdr_token = t\<rparr> ops) \<lparr>hdr_type = FROB_S2, hdr_token = 0\<rparr> =
      Inr (0, \<lparr>hdr_type = FROB_S2, hdr_token = t\<rparr>, ops_text ops)"
    unfolding p using header_extract_text [OF token_header_ok [OF assms ok]] token_roundtrip [of t]
    by (simp add: frob_enum)
qed

lemma s2_clean: "s2_ok m \<Longrightarrow> clean (ops_text (s2_ops m))"
  by (clarsimp simp: s2_ok_def s2_ops_def FCOPY_def clean_text)

lemma s2_aborts:
  assumes "msg_header msg = \<lparr>hdr_type = FROB_S2, hdr_token = t\<rparr>" "unat t < 2 ^ 24" "msg_body msg = S2 m" "s2_ok m"
    and "\<not> list_all rl_n (cstr (s2_payment_method m))"
    and "frame_need (msg_header msg) (s2_ops m) \<le> s" "s \<le> length buf"
  shows "serialize s buf msg = Inl Assert_Failed"
proof -
  obtain d rest where bad: "rl_exec s2_fields [] zero_s2 (ops_text (s2_ops m)) = Inr (None, d, rest)"
    using s2_bad_exec [OF assms(4,5)] by blast
  show ?thesis
  proof (rule serialize_unparsable [OF _ _ _ refl])
    show "header_good (msg_header msg)" using assms(1,2) by (simp add: header_good_def frob_enum)
    show "body_ops (hdr_type (msg_header msg)) (msg_body msg) = Inr (s2_ops m)"
      using assms(1,3) by (simp add: body_ops_def frob_enum)
    show "list_all op_good (s2_ops m)" by (simp add: s2_ops_def FCOPY_def)
    have "clean (payload (msg_header msg) (s2_ops m))"
      using s2_clean [OF assms(4)] s2_payload(1) [OF assms(2)] assms(1) by (simp add: header_text_def rl_a_def)
    then show "ETX \<notin> set (payload (msg_header msg) (s2_ops m))" using clean_frame by blast
    show "length (frame_of (payload (msg_header msg) (s2_ops m))) \<le> s" "frame_need (msg_header msg) (s2_ops m) \<le> length buf"
      using assms(6,7) by (simp_all add: frame_need_def)
    show "parse_message (payload (msg_header msg) (s2_ops m)) (blank_msg (hdr_type (msg_header msg))) =
        Inr (- 1, (blank_msg FROB_S2)\<lparr>msg_header := \<lparr>hdr_type = FROB_S2, hdr_token = t\<rparr>, msg_body := S2 d\<rparr>)"
      using s2_payload(2) [OF assms(2), of "s2_ops m"] assms(1) bad
      by (simp add: parse_message_def Let_def frob_enum frob_body_extract_def extract_s2_def run_machine_def errno_defs)
  qed simp
qed

lemma s2_shifts:
  assumes "unat t < 2 ^ 24" "s2_ok m" "list_all rl_n (cstr (s2_payment_method m))"
  shows "parse_message (payload \<lparr>hdr_type = FROB_S2, hdr_token = t\<rparr> (s2_ops m)) (blank_msg FROB_S2) =
    Inr (0, \<lparr>msg_magic = FROB_MAGIC, msg_header = \<lparr>hdr_type = FROB_S2, hdr_token = t\<rparr>, msg_body = S2 (s2_shifted m),
      msg_attr = zero_attr\<rparr>)"
  using s2_payload(2) [OF assms(1), of "s2_ops m"] s2_shift_exec [OF assms(2,3)]
  by (simp add: parse_message_def Let_def frob_enum frob_body_extract_def extract_s2_def run_machine_def blank_msg_def)

section \<open>What it means\<close>

text \<open>
  C26. The versions in a T4 do not survive. What the serialiser writes for them is read as a T4 without any
  version: the first is skipped, the others are taken for attributes and stored, cut to three
  characters, where \<open>place\<close> says. With at most six versions that are not empty the message is
  accepted; with seven of three or four characters the attributes are stored behind their array.
\<close>

theorem t4_versions_lost:
  assumes "unat (t :: 32 word) < 2 ^ 24" "vs = v # vs'" "list_all version_ok vs"
  shows "parse_message (payload \<lparr>hdr_type = FROB_T4, hdr_token = t\<rparr> (t4_ops vs)) (blank_msg FROB_T4) =
    (case place 2 zero_attr (map cstr vs') of
       None \<Rightarrow> Inl Out_Of_Bounds_Write
     | Some attr \<Rightarrow> Inr (0, \<lparr>msg_magic = FROB_MAGIC, msg_header = \<lparr>hdr_type = FROB_T4, hdr_token = t\<rparr>,
         msg_body = T4 zero_t4, msg_attr = attr\<rparr>))
    \<and> (list_all (\<lambda>v. cstr v = []) (drop 5 vs') \<longrightarrow> place 2 zero_attr (map cstr vs') \<noteq> None)
    \<and> (6 \<le> length vs' \<and> list_all (\<lambda>v. 3 \<le> length (cstr v)) (take 6 vs') \<longrightarrow> place 2 zero_attr (map cstr vs') = None)"
  using t4_parse [OF assms] place_fits [of 5 "map cstr vs'" 2 zero_attr] place_overflows [of "map cstr vs'" zero_attr]
  by (simp add: drop_map take_map list.pred_map comp_def)

text \<open>The versions of the built-in configuration, and a terminal that supports seven.\<close>

theorem t4_versions_witness:
  "parse_message (payload \<lparr>hdr_type = FROB_T4, hdr_token = 7\<rparr> (t4_ops (pad 4 (lit ''160'') # pad 4 (lit ''170'') # replicate 18 (zeros 4))))
       (blank_msg FROB_T4) =
     Inr (0, \<lparr>msg_magic = FROB_MAGIC, msg_header = \<lparr>hdr_type = FROB_T4, hdr_token = 7\<rparr>,
       msg_body = T4 zero_t4, msg_attr = zero_attr[4 := lit ''170'']\<rparr>)
   \<and> parse_message (payload \<lparr>hdr_type = FROB_T4, hdr_token = 7\<rparr> (t4_ops (replicate 7 (pad 4 (lit ''160'')) @ replicate 13 (zeros 4))))
       (blank_msg FROB_T4) = Inl Out_Of_Bounds_Write"
proof -
  have v: "version_ok (pad 4 (lit ''160''))" "version_ok (pad 4 (lit ''170''))" "version_ok (zeros 4)"
    by (simp_all add: version_ok_def text_field_pad rl_a_def) (simp add: text_field_def pad_def zeros_def cstr_def)
  have c: "cstr (pad 4 (lit ''160'')) = lit ''160''" "cstr (pad 4 (lit ''170'')) = lit ''170''" "cstr (zeros 4) = []"
    by (simp_all add: cstr_pad) (simp add: zeros_def cstr_def)
  have e: "place i attr (replicate n []) = Some attr" for i attr n
    by (induction n arbitrary: i) auto
  have p: "place 2 zero_attr (lit ''170'' # replicate 18 []) = Some (zero_attr[4 := lit ''170''])"
    using e [of _ _ 18] by (simp add: Let_def cut_def pad_def)
  have 1: "list_all version_ok (pad 4 (lit ''160'') # pad 4 (lit ''170'') # replicate 18 (zeros 4))"
    "list_all version_ok (pad 4 (lit ''160'') # replicate 6 (pad 4 (lit ''160'')) @ replicate 13 (zeros 4))"
    using v by (simp_all add: list_all_iff)
  have 2: "map cstr (pad 4 (lit ''170'') # replicate 18 (zeros 4)) = lit ''170'' # replicate 18 []"
    by (simp only: list.map map_replicate c)
  have 3: "6 \<le> length (replicate 6 (pad 4 (lit ''160'')) @ replicate 13 (zeros 4))"
    "list_all (\<lambda>v. 3 \<le> length (cstr v)) (take 6 (replicate 6 (pad 4 (lit ''160'')) @ replicate 13 (zeros 4)))"
    "replicate 7 (pad 4 (lit ''160'')) = pad 4 (lit ''160'') # replicate 6 (pad 4 (lit ''160''))"
    using c by (simp_all add: list_all_iff) (simp add: numeral_eq_Suc)
  have t: "unat (7 :: 32 word) < 2 ^ 24" by simp
  show ?thesis
    using t4_versions_lost [OF t refl 1(1)] t4_versions_lost [OF t refl 1(2)] p 3 unfolding 2 3(3) by simp
qed

text \<open>
  C25. A well-formed S2 with a payment method that is not a number cannot be sent: \<open>serialize\<close> leaves out the
  transaction id, its own check reads the fields after it at the wrong places and the assertion ends
  the process, in every buffer with room for the frame.
\<close>

theorem s2_cannot_be_sent:
  assumes "msg_header msg = \<lparr>hdr_type = FROB_S2, hdr_token = t\<rparr>" "unat t < 2 ^ 24" "msg_body msg = S2 m" "s2_ok m"
    and "\<not> list_all rl_n (cstr (s2_payment_method m))"
    and "frame_need (msg_header msg) (s2_ops m) \<le> s" "s \<le> length buf"
  shows "serialize s buf msg = Inl Assert_Failed"
  by (rule s2_aborts [OF assms])

definition sample_s2 :: frob_s2 where
  "sample_s2 = \<lparr>s2_error = 0, s2_card_token = zeros 32, s2_mid = pad 20 (lit ''M1''), s2_tid = pad 20 (lit ''T1''),
     s2_trx_id = pad 20 (lit ''42''), s2_trx_amount = pad 12 (lit ''1230''), s2_cashback = pad 12 (lit ''0''),
     s2_payment_method = pad 40 (lit ''VISA''), s2_msg = pad 80 (lit ''Approved'')\<rparr>"

definition s2_msg_of :: "frob_s2 \<Rightarrow> frob_msg" where
  "s2_msg_of m = \<lparr>msg_magic = FROB_MAGIC, msg_header = \<lparr>hdr_type = FROB_S2, hdr_token = 5\<rparr>, msg_body = S2 m, msg_attr = zero_attr\<rparr>"

theorem s2_cannot_be_sent_witness:
  "serialize 2000 (zeros 2000) (s2_msg_of sample_s2) = Inl Assert_Failed"
proof -
  have ok: "s2_ok sample_s2" "\<not> list_all rl_n (cstr (s2_payment_method sample_s2))"
    by (simp_all add: s2_ok_def sample_s2_def text_field_pad cstr_pad rl_a_def is_digit_def)
  have ops: "msg_ops (s2_msg_of sample_s2) = s2_ops sample_s2"
    by (simp add: msg_ops_def s2_msg_of_def body_ops_def frob_enum)
  have "sum_list (map op_bound (s2_ops sample_s2)) \<le> 1984"
    by (simp add: s2_ops_def sample_s2_def FCOPY_def length_pad)
  then have "frame_need (msg_header (s2_msg_of sample_s2)) (s2_ops sample_s2) \<le> 2000"
    using wire_bound(1) [of "s2_msg_of sample_s2"] by (simp add: wire_need_def ops)
  then show ?thesis
    using ok by (intro s2_cannot_be_sent [where t = 5 and m = sample_s2]) (simp_all add: s2_msg_of_def)
qed

end
