(* ===== verification/Utils_Facts.thy ===== *)
theory Utils_Facts
  imports Frame
begin

text \<open>
  What the helpers of \<open>utils.c\<close> guarantee: the checksum finds a changed byte, a file is read whole or
  not at all whatever the kernel does, and trimming removes what it should where there is something
  to keep.
\<close>

section \<open>The checksum\<close>

lemma lrc_one_byte: "lrc_loop l (xs @ a # ys) = lrc_loop l (xs @ b # ys) \<longleftrightarrow> a = b"
proof -
  have "lrc_loop l (xs @ c # ys) = c XOR (lrc_loop l xs XOR lrc_loop 0 ys)" for c
    using lrc_loop_start [of "lrc_loop l xs XOR c" ys] by (simp add: ac_simps)
  moreover have "a = b" if "a XOR k = b XOR k" for k
  proof -
    from that have "(a XOR k) XOR k = (b XOR k) XOR k" by simp
    then show ?thesis by (simp add: xor.assoc)
  qed
  ultimately show ?thesis by auto
qed

text \<open>A frame with one byte of the data changed is reported as damaged.\<close>

lemma frame_one_byte:
  assumes "STX \<notin> set junk" "ETX \<notin> set (xs @ a # ys)" "b \<noteq> ETX"
  shows "find_frame (junk @ STX # (xs @ b # ys) @ ETX # lrc_loop 0 ((xs @ a # ys) @ [ETX]) # rest) =
    Some (length junk + 1, length junk + 1 + length (xs @ a # ys), b = a)"
proof -
  have "lrc_loop 0 ((xs @ b # ys) @ [ETX]) = lrc_loop 0 ((xs @ a # ys) @ [ETX]) \<longleftrightarrow> b = a"
    using lrc_one_byte [of 0 xs b "ys @ [ETX]" a] by simp
  then show ?thesis
    using find_frame_body [of junk "xs @ b # ys" "lrc_loop 0 ((xs @ a # ys) @ [ETX])" rest] assms by simp
qed

text \<open>
  C15. One byte of the data changed on the way, by any amount that does not turn it into ETX:
  \<open>frob_frame_process\<close> finds the frame at the same place, with \<open>p\<close> and \<open>pe\<close> around the same stretch of the
  buffer as without the change, and answers EBADMSG instead of 0.
\<close>

theorem one_byte_detected:
  assumes "STX \<notin> set junk" "ETX \<notin> set (xs @ a # ys)" "b \<noteq> ETX"
    and "inp = junk @ STX # (xs @ b # ys) @ ETX # lrc_loop 0 ((xs @ a # ys) @ [ETX]) # rest"
  shows "case frob_frame_process inp (fresh_fsm 0 (length inp)) of (e, f) \<Rightarrow>
    e = (if b = a then 0 else EBADMSG)
    \<and> fst_p f = length junk + 1 \<and> fst_pe f = Some (length junk + 1 + length (xs @ a # ys))
    \<and> drop (fst_p f) (take (length junk + 1 + length (xs @ a # ys)) inp) = xs @ b # ys"
  using process_find_frame [of inp] frame_one_byte [OF assms(1-3), of rest] assms(4)
  by (auto split: prod.splits)

theorem one_byte_detected_witness:
  "case frob_frame_process [0x20, STX, 0x41, 0x43, ETX, 0x41 XOR 0x42 XOR ETX]
      (fresh_fsm 0 (length [0x20, STX, 0x41, 0x43, ETX, 0x41 XOR 0x42 XOR ETX])) of (e, f) \<Rightarrow>
     e = EBADMSG \<and> fst_p f = 2 \<and> fst_pe f = Some 4"
  using one_byte_detected [where junk = "[0x20]" and xs = "[0x41]" and a = "0x42" and ys = "[]" and b = "0x43"
      and rest = "[]" and inp = "[0x20, STX, 0x41, 0x43, ETX, 0x41 XOR 0x42 XOR ETX]"]
  by (auto simp: wire_defs split: prod.splits)

section \<open>Hexadecimal fields\<close>

text \<open>
  C38. \<open>snprint_hex\<close> into a buffer with room, then \<open>UNHEX\<close> on the digits it wrote: the bytes come back,
  whatever byte follows the digits.
\<close>

theorem hex_roundtrip:
  assumes "2 * length bin < s" "off + 2 * length bin < length mem" "length dst = length bin"
  shows "\<exists>mem'. snprint_hex s mem off bin = Inr (mem', 2 * length bin) \<and> length mem' = length mem
    \<and> UNHEX dst (take (2 * length bin) (drop off mem')) after = Inr bin"
proof -
  obtain m where m: "hex_loop mem off bin = Inr m" "length m = length mem"
    "take (off + 2 * length bin) m = take off mem @ hex_text bin"
    using hex_loop_ok [of off bin mem] assms(2) by auto
  have "take (2 * length bin) (drop off m) = drop off (take (off + 2 * length bin) m)"
    by (simp add: take_drop add.commute)
  also have "\<dots> = hex_text bin" using m(3) assms(2) by simp
  finally show ?thesis
    using m assms(1,3) by (simp add: snprint_hex_def UNHEX_hex_text mult.commute)
qed

theorem hex_roundtrip_witness:
  "\<exists>mem'. snprint_hex 8 (zeros 9) 1 [0xAB, 0x07] = Inr (mem', 4) \<and> length mem' = 9
     \<and> UNHEX (zeros 2) (take 4 (drop 1 mem')) FS = Inr [0xAB, 0x07]"
  using hex_roundtrip [of "[0xAB, 0x07]" 8 1 "zeros 9" "zeros 2" FS] by simp

section \<open>Reading a file\<close>

lemma rread_quiet:
  "length acc \<le> s \<Longrightarrow> rread (bs, []) s acc = Some (acc @ take (s - length acc) bs)"
proof -
  assume l: "length acc \<le> s"
  have stop: "rread (cs, []) s acc' = Some acc'" if "take (s - length acc') cs = []" for cs acc'
    using that by (subst rread.simps) simp
  show ?thesis
  proof (cases "take (s - length acc) bs = []")
    case True
    then show ?thesis using stop [OF True] by simp
  next
    case False
    have "rread (bs, []) s acc = rread (drop (s - length acc) bs, []) s (acc @ take (s - length acc) bs)"
      using False by (subst rread.simps) simp
    also have "\<dots> = Some (acc @ take (s - length acc) bs)"
      by (rule stop) (use l in \<open>auto simp: min_def\<close>)
    finally show ?thesis .
  qed
qed

lemma rread_all:
  assumes "Fails \<notin> set ev" "length acc \<le> s"
  shows "rread (bs, ev) s acc = Some (acc @ take (s - length acc) bs)"
  using assms
proof (induction ev arbitrary: bs acc)
  case (Cons e es)
  show ?case
  proof (cases e)
    case Interrupted
    then show ?thesis using Cons by (subst rread.simps) simp
  next
    case (Short k)
    let ?m = "min (s - length acc) (Suc k)"
    show ?thesis
    proof (cases "take ?m bs = []")
      case True
      then have "take (s - length acc) bs = []" by (auto simp: min_def split: if_splits)
      then show ?thesis using Short True by (subst rread.simps) (auto simp: Let_def)
    next
      case False
      have "rread (drop ?m bs, es) s (acc @ take ?m bs) =
          Some ((acc @ take ?m bs) @ take (s - length (acc @ take ?m bs)) (drop ?m bs))"
        by (rule Cons.IH) (use Cons.prems in auto)
      moreover have "take ?m bs @ take (s - length (acc @ take ?m bs)) (drop ?m bs) = take (s - length acc) bs"
      proof (cases "length bs \<le> ?m")
        case False
        then have "length (take ?m bs) = ?m" by auto
        then have "s - length (acc @ take ?m bs) = s - length acc - ?m"
          by (simp only: length_append diff_diff_left)
        moreover have "take ?m bs @ take (s - length acc - ?m) (drop ?m bs) = take (?m + (s - length acc - ?m)) bs"
          by (rule take_add [symmetric])
        moreover have "?m + (s - length acc - ?m) = s - length acc" by simp
        ultimately show ?thesis by (simp only:)
      qed auto
      ultimately show ?thesis using Short False by (subst rread.simps) (simp add: Let_def)
    qed
  qed (use Cons.prems in simp)
qed (simp add: rread_quiet)

text \<open>
  C39. Whatever the kernel does short of failing, interrupting calls or handing out the file in small
  pieces, \<open>eread\<close> returns the whole file when it is smaller than the buffer and EFBIG otherwise: never
  a truncated file.
\<close>

theorem eread_all_or_nothing:
  assumes "Fails \<notin> set ev"
  shows "eread (bs, ev) s = (if length bs < s then Inr bs else Inl EFBIG)"
  using rread_all [OF assms, of "[]" s bs] by (auto simp: eread_def)

theorem eread_witness:
  "eread ([1, 2, 3], [Short 0, Interrupted, Short 7]) 4 = Inr [1, 2, 3]
   \<and> eread ([1, 2, 3], [Short 0, Interrupted]) 3 = Inl EFBIG"
  using eread_all_or_nothing [of "[Short 0, Interrupted, Short 7]" "[1, 2, 3]" 4]
    eread_all_or_nothing [of "[Short 0, Interrupted]" "[1, 2, 3]" 3] by simp

section \<open>Trimming\<close>

lemma skip_spaces_run:
  assumes "drop p mem = w @ x # rest" "list_all is_space w" "\<not> is_space x"
  shows "skip_spaces mem p = Inr (p + length w)"
  using assms
proof (induction w arbitrary: p)
  case Nil
  then show ?case by (subst skip_spaces.simps) (auto simp: nth_via_drop dest: arg_cong [of _ _ length])
next
  case (Cons y w)
  then have "drop (Suc p) mem = w @ x # rest" by (metis append_Cons drop_Suc list.sel(3) tl_drop)
  moreover have "mem ! p = y" "p < length mem"
    using Cons.prems(1) by (auto simp: nth_via_drop intro: ccontr)
  ultimately show ?case using Cons by (subst skip_spaces.simps) auto
qed

lemma zero_no_space: "\<not> is_space 0"
  by (simp add: is_space_def)

lemma strlen_text:
  assumes "drop p mem = w @ 0 # rest" "0 \<notin> set w"
  shows "strlen mem p = Inr (length w)"
proof -
  have "takeWhile (\<lambda>b. b \<noteq> 0) (w @ 0 # rest) = w" using assms(2) by (induction w) auto
  then show ?thesis using assms(1) by (simp add: strlen_def cstr_def)
qed

lemma trim_back_run:
  assumes "mem = pre @ (c # u) @ sp @ post" "\<not> is_space (last (c # u)) \<or> u = []" "list_all is_space sp"
  shows "trim_back mem (length pre) (int (length pre + length (u @ sp))) = Inr (pre @ (c # u) @ replicate (length sp) 0 @ post)"
  using assms
proof (induction sp arbitrary: mem post rule: rev_induct)
  case Nil
  show ?case
  proof (cases u rule: rev_cases)
    case Nil
    then show ?thesis using \<open>mem = _\<close> by (subst trim_back.simps) simp
  next
    case (snoc v x)
    have "mem ! (length pre + Suc (length v)) = x" using Nil.prems(1) snoc by (simp add: nth_append)
    then show ?thesis
      using Nil.prems snoc by (subst trim_back.simps) (simp add: nat_add_distrib nat_int_add)
  qed
next
  case (snoc y sp)
  let ?e = "length pre + Suc (length u + length sp)"
  have y: "mem ! ?e = y" "?e < length mem" "is_space y" using snoc.prems by (simp_all add: nth_append)
  have upd: "mem[?e := 0] = pre @ (c # u) @ sp @ 0 # post"
    using snoc.prems(1) by (simp add: list_update_append)
  have "trim_back mem (length pre) (int ?e) = trim_back (mem[?e := 0]) (length pre) (int ?e - 1)"
    using y by (subst trim_back.simps) (simp add: nat_add_distrib nat_int_add)
  moreover have "int ?e - 1 = int (length pre + length (u @ sp))" by simp
  moreover have "trim_back (mem[?e := 0]) (length pre) (int (length pre + length (u @ sp))) =
      Inr (pre @ (c # u) @ replicate (length sp) 0 @ 0 # post)"
  proof (rule snoc.IH [OF upd])
    show "\<not> is_space (last (c # u)) \<or> u = []" by (fact snoc.prems(2))
    show "list_all is_space sp" using snoc.prems(3) unfolding list_all_append by (rule conjunct1)
  qed
  ultimately have "trim_back mem (length pre) (int ?e) = Inr (pre @ (c # u) @ replicate (length sp) 0 @ 0 # post)"
    by (simp only:)
  then show ?case by (simp add: replicate_app_Cons_same)
qed

lemma trim_text:
  assumes "mem = pre @ l @ (c # u) @ r @ 0 # post" "list_all is_space l" "list_all is_space r"
    and "\<not> is_space c" "\<not> is_space (last (c # u))" "0 \<notin> set (c # u)"
  shows "trim_whitespaces mem (length pre) = Inr (pre @ l @ (c # u) @ replicate (length r + 1) 0 @ post, length (pre @ l))"
proof -
  have "skip_spaces mem (length pre) = Inr (length (pre @ l))"
    using skip_spaces_run [of "length pre" mem l c "u @ r @ 0 # post"] assms(1,2,4) by simp
  moreover have "0 \<notin> set ((c # u) @ r)" using assms(3,6) zero_no_space by (auto simp: list_all_iff)
  then have "strlen mem (length (pre @ l)) = Inr (length ((c # u) @ r))"
    using strlen_text [of "length (pre @ l)" mem "(c # u) @ r" post] assms(1) by simp
  moreover have "trim_back mem (length (pre @ l)) (int (length (pre @ l) + length (u @ r))) =
      Inr ((pre @ l) @ (c # u) @ replicate (length r) 0 @ 0 # post)"
    using trim_back_run [of mem "pre @ l" c u r "0 # post"] assms(1,3,5) by simp
  moreover have "int (length (pre @ l)) + int (length ((c # u) @ r)) - 1 = int (length (pre @ l) + length (u @ r))" by simp
  ultimately have "trim_whitespaces mem (length pre) =
      Inr ((pre @ l) @ (c # u) @ replicate (length r) 0 @ 0 # post, length (pre @ l))"
    unfolding trim_whitespaces_def by (simp only: rbind_simps)
  then show ?thesis by (simp add: replicate_app_Cons_same)
qed

text \<open>
  C40. \<open>trim_whitespaces\<close> on a string with at least one character that is no space: the result points at
  the first such character, the spaces after the last one become null bytes, and nothing else in the
  object that holds the string changes.
\<close>

theorem trim_keeps_text:
  assumes "mem = pre @ l @ (c # u) @ r @ 0 # post" "list_all is_space l" "list_all is_space r"
    and "\<not> is_space c" "\<not> is_space (last (c # u))" "0 \<notin> set (c # u)"
  shows "trim_whitespaces mem (length pre) = Inr (pre @ l @ (c # u) @ replicate (length r + 1) 0 @ post, length (pre @ l))"
  by (rule trim_text [OF assms])

theorem trim_keeps_text_witness:
  "trim_whitespaces (lit '' ab c '' @ [0, 7]) 0 = Inr (lit '' ab c'' @ [0, 0, 7], 1)"
proof -
  have "trim_whitespaces ([] @ [0x20] @ (0x61 # [0x62, 0x20, 0x63]) @ [0x20] @ 0 # [7]) (length ([] :: byte list)) =
      Inr ([] @ [0x20] @ (0x61 # [0x62, 0x20, 0x63]) @ replicate (length [0x20 :: byte] + 1) 0 @ [7],
        length ([] @ [0x20 :: byte]))"
    by (rule trim_keeps_text) (simp_all add: is_space_def)
  then show ?thesis by simp
qed

lemma trim_back_below:
  assumes "list_all is_space (take n mem)" "n \<le> length mem" "n \<le> p"
  shows "trim_back mem p (int n - 1) = Inl Out_Of_Bounds_Read"
  using assms
proof (induction n arbitrary: mem)
  case 0
  then show ?case by (subst trim_back.simps) simp
next
  case (Suc n)
  have "is_space (mem ! n)" "list_all is_space (take n (mem[n := 0]))"
    using Suc.prems by (auto simp: take_Suc_conv_app_nth)
  then show ?case using Suc.IH [of "mem[n := 0]"] Suc.prems by (subst trim_back.simps) simp
qed

text \<open>
  On a string of spaces only, at the start of its object, the second loop of \<open>trim_whitespaces\<close> runs
  down past the first byte: it never meets the end of the string it is compared with, and reads
  below the object.
\<close>

theorem trim_blank_reads_below:
  assumes "list_all is_space w"
  shows "trim_whitespaces (w @ 0 # post) 0 = Inl Out_Of_Bounds_Read"
proof -
  have "skip_spaces (w @ 0 # post) 0 = Inr (length w)"
    using skip_spaces_run [of 0 "w @ 0 # post" w 0 post] assms zero_no_space by simp
  moreover have "strlen (w @ 0 # post) (length w) = Inr 0"
    using strlen_text [of "length w" "w @ 0 # post" "[]" post] by simp
  moreover have "trim_back (w @ 0 # post) (length w) (int (length w) - 1) = Inl Out_Of_Bounds_Read"
    using trim_back_below [of "length w" "w @ 0 # post" "length w"] assms by simp
  ultimately show ?thesis by (simp add: trim_whitespaces_def)
qed

theorem trim_blank_witness: "trim_whitespaces [0x20, 0x09, 0, 5] 0 = Inl Out_Of_Bounds_Read"
  using trim_blank_reads_below [of "[0x20, 0x09]" "[5]"] by (simp add: is_space_def)

end
