(* ===== verification/Message_Props.thy ===== *)
theory Message_Props
  imports Messages
begin

text \<open>
  What the serialiser promises its callers: the memory it may touch, what it returns when a message
  does not fit, and that a message it wrote is received as it was.
\<close>

section \<open>Memory\<close>

text \<open>Whatever the message, a run keeps the size of the memory, and cursor and free space consistent.\<close>

lemma put_if_length: "put_if c bs mem p = Inr (m, n) \<Longrightarrow> length m = length mem"
  by (auto simp: put_if_def rbind_eq_Inr write_at_length split: if_splits)

lemma serialize_field_length:
  assumes "serialize_field v s mem p = Inr (m, n)"
  shows "length m = length mem"
proof (cases v)
  case (V_hex bs)
  then show ?thesis
    using assms hex_loop_frame by (auto simp: serialize_field_def snprint_hex_def rbind_eq_Inr split: if_splits)
qed (use assms in \<open>auto simp: serialize_field_def serialize_token_def serialize_type_def serialize_trx_type_def
    serialize_string_def serialize_boolean_def serialize_integer_def Let_def rbind_eq_Inr write_at_length
    dest: put_if_length split: if_splits\<close>)

lemma XCOPY_within:
  assumes "XCOPY ser st = Inr (go, st')" "\<And>s mem p m n. ser s mem p = Inr (m, n) \<Longrightarrow> length m = length mem"
  shows "within_space st st'"
  using assms by (auto simp: XCOPY_def rbind_eq_Inr within_space_def split: if_splits)

lemma append_byte_within: "XCOPY (append_byte b) st = Inr (go, st') \<Longrightarrow> within_space st st'"
  by (rule XCOPY_within) (auto simp: append_byte_def dest: put_if_length)

lemma and_then_within:
  assumes "and_then x k = Inr (go, st')" "\<And>go st1. x = Inr (go, st1) \<Longrightarrow> within_space st st1"
    and "\<And>go st1 st2. k st1 = Inr (go, st2) \<Longrightarrow> within_space st1 st2"
  shows "within_space st st'"
  using assms within_space_trans by (auto simp: and_then_def rbind_eq_Inr split: if_splits) blast

lemma run_op_within: "run_op op st = Inr (go, st') \<Longrightarrow> within_space st st'"
proof (cases op)
  case (DCOPY v d)
  assume "run_op op st = Inr (go, st')"
  with DCOPY show ?thesis
    by (auto elim!: and_then_within dest: append_byte_within XCOPY_within [OF _ serialize_field_length])
qed (auto simp: rbind_eq_Inr dest: append_byte_within)

lemma run_ops_within: "run_ops ops st = Inr (go, st') \<Longrightarrow> within_space st st'"
proof (induction ops arbitrary: st go st')
  case (Cons op ops)
  then show ?case using and_then_within [of "run_op op st" "run_ops ops" go st' st] run_op_within by auto
qed (simp add: within_space_def)

lemma write_frame_within:
  assumes "write_frame s buf msg = Inr (go, st)"
  shows "within_space \<lparr>ser_mem = buf, ser_cur = 0, ser_free = s\<rparr> st"
  using assms unfolding write_frame_def
  by (rule and_then_within) (auto simp: rbind_eq_Inr dest: run_ops_within)

lemma serialize_within:
  assumes "serialize s buf msg = Inr (n, buf')"
  shows "length buf' = length buf \<and> \<bar>n\<bar> \<le> int s"
proof -
  obtain go st where st: "write_frame s buf msg = Inr (go, st)" "buf' = ser_mem st" "\<bar>n\<bar> = int (ser_cur st)"
    using assms by (auto simp: serialize_def rbind_eq_Inr Let_def split: if_splits prod.splits)
  show ?thesis using write_frame_within [OF st(1)] st(2,3) by (auto simp: within_space_def)
qed

text \<open>
  C16. Whatever message \<open>serialize\<close> is given, well formed or not: if it returns, the value is at most the
  space it was told it has, as a count of bytes written or as the negative one after a bail-out.
\<close>

theorem serialize_bounds:
  assumes "serialize s buf msg = Inr (n, buf')"
  shows "length buf' = length buf \<and> \<bar>n\<bar> \<le> int s"
  by (rule serialize_within [OF assms])

section \<open>Sample messages\<close>

definition ping_msg :: "32 word \<Rightarrow> frob_msg" where
  "ping_msg t = \<lparr>msg_magic = FROB_MAGIC, msg_header = \<lparr>hdr_type = FROB_T1, hdr_token = t\<rparr>,
     msg_body = T1, msg_attr = zero_attr\<rparr>"

definition sample_s1 :: frob_s1 where
  "sample_s1 = \<lparr>s1_transaction_type = TRANSACTION_TYPE_PAYMENT, s1_ecr_id = pad 20 (lit ''ECR 1''),
     s1_payment_id = pad 20 (lit ''42''), s1_amount_gross = pad 12 (lit ''1230''),
     s1_amount_net = pad 12 (lit ''1000''), s1_vat = pad 12 (lit ''230''), s1_cashback = pad 12 (lit ''0''),
     s1_max_cashback = pad 12 (lit ''0''), s1_currency = lit ''985''\<rparr>"

definition payment_msg :: frob_msg where
  "payment_msg = \<lparr>msg_magic = FROB_MAGIC, msg_header = \<lparr>hdr_type = FROB_S1, hdr_token = 0x1F\<rparr>,
     msg_body = S1 sample_s1, msg_attr = zero_attr\<rparr>"

lemma ping_msg_ok: "unat t < 2 ^ 24 \<Longrightarrow> msg_ok (ping_msg t)"
  by (simp add: msg_ok_def ping_msg_def)

lemma sample_text: "text_field 3 rl_a (lit ''985'')" "cstr (lit ''985'') = lit ''985''"
  by (simp_all add: text_field_def cstr_def pad_def rl_a_def)

lemma payment_msg_ok: "msg_ok payment_msg"
  by (simp add: msg_ok_def payment_msg_def s1_ok_def sample_s1_def amount_ok_def text_field_pad cstr_pad
      sample_text [simplified] rl_a_def is_digit_def)

lemma payment_msg_fits: "wire_need payment_msg \<le> 300" "length (wire_text payment_msg) \<le> 300"
proof -
  have "sum_list (map op_bound (msg_ops payment_msg)) \<le> 284"
    by (simp add: payment_msg_def msg_ops_def body_ops_def frob_enum s1_ops_def sample_s1_def FCOPY_def length_pad)
  then show "wire_need payment_msg \<le> 300" "length (wire_text payment_msg) \<le> 300"
    using wire_bound [of payment_msg] by simp_all
qed

section \<open>Round trip\<close>

text \<open>
  C1. A well-formed message serialised into a buffer with room for it, then received by the frame
  finder and \<open>parse_message\<close> with anything behind it, is the message that was sent: type, token,
  every field of the body, and no attributes.
\<close>

theorem serialize_receive:
  assumes "msg_ok m" "length (wire_text m) \<le> s" "wire_need m \<le> length buf"
  shows "\<exists>n buf'. serialize s buf m = Inr (int n, buf') \<and> 0 < n \<and> length buf' = length buf
    \<and> receive (take n buf' @ rest) = Inr (Some (0, m))"
proof -
  obtain buf' where "serialize s buf m = Inr (int (length (wire_text m)), buf')"
    "take (length (wire_text m)) buf' = wire_text m" "length buf' = length buf"
    using serialize_ok [OF assms] by blast
  moreover have "0 < length (wire_text m)" by (simp add: wire_text_def)
  ultimately show ?thesis using receive_wire_text [OF assms(1), of rest] by metis
qed

theorem serialize_receive_witness:
  "\<exists>n buf'. serialize 300 (zeros 300) payment_msg = Inr (int n, buf') \<and> 0 < n \<and> length buf' = 300
    \<and> receive (take n buf' @ [ACK]) = Inr (Some (0, payment_msg))"
  using serialize_receive [OF payment_msg_ok payment_msg_fits(2), of "zeros 300" "[ACK]"] payment_msg_fits(1) by simp




theorem serialize_bounds_witness:
  "\<exists>n buf'. serialize 300 (zeros 300) payment_msg = Inr (n, buf') \<and> length buf' = 300 \<and> \<bar>n\<bar> \<le> 300"
proof -
  obtain n buf' where run: "serialize 300 (zeros 300) payment_msg = Inr (n, buf')"
    using serialize_ok [OF payment_msg_ok payment_msg_fits(2), of "zeros 300"] payment_msg_fits(1) by auto
  then show ?thesis using serialize_bounds [OF run] by auto
qed

end
