(* ===== verification/Autoresponder.thy ===== *)
theory Autoresponder
  imports Message_Props Utils_Facts
begin

text \<open>
  \<open>autoresponder.c\<close>: answering a request with the message whose type is one higher, filled from
  a configuration that is partly built in and partly read from the file \<open>d5.txt\<close>.
\<close>

section \<open>Configuration\<close>

record config =
  cfg_supported_versions :: "byte list list"  \<comment> \<open>4 arrays of 4 bytes\<close>
  cfg_info :: frob_device_info
  cfg_parameters :: frob_d5

text \<open>Any failure to parse ends the process.\<close>

definition xparse_message :: "byte list \<Rightarrow> frob_msg outcome" where
  "xparse_message buf =
     rbind (parse_message buf (blank_msg 0)) (\<lambda>(r, m). if r \<noteq> 0 then Inl Exited else Inr m)"

definition body_d5 :: "frob_body \<Rightarrow> frob_d5 outcome" where
  "body_d5 b = (case b of D5 d \<Rightarrow> Inr d | _ \<Rightarrow> Inl Union_Misread)"

definition load_d5_from_file :: "kernel_file option \<Rightarrow> frob_d5 outcome" where
  "load_d5_from_file f =
     rbind (xslurp f 256) (\<lambda>buf. rbind (xparse_message buf) (\<lambda>m. body_d5 (msg_body m)))"

text \<open>The string literals of the initialisers, null-padded by the compiler.\<close>

definition builtin_config :: "frob_d5 \<Rightarrow> config" where
  "builtin_config d5 =
     \<lparr>cfg_supported_versions = [pad 4 (lit ''160''), pad 4 (lit ''170''), zeros 4, zeros 4],
      cfg_info = \<lparr>info_version = pad 4 (lit ''170''), info_vendor = pad 20 (lit ''TEST''),
        info_device_type = pad 20 (lit ''SIM''), info_device_id = pad 20 (lit ''0'')\<rparr>,
      cfg_parameters = d5\<rparr>"

section \<open>construct_hardcoded_message_body\<close>

text \<open>\<open>memcpy\<close> of the four versions into the twenty of T4 leaves the rest zero.\<close>

definition construct_hardcoded_message_body :: "config \<Rightarrow> msg_type \<Rightarrow> frob_body outcome" where
  "construct_hardcoded_message_body cfg t =
     (if t = FROB_T1 then Inr T1
      else if t = FROB_T3 then Inr T3
      else if t = FROB_D4 then Inr D4
      else if t = FROB_P1 then Inr P1
      else if t = FROB_A1 then Inr A1
      else if t = FROB_K1 then Inr K1
      else if t = FROB_T2 then Inr (T2 (cfg_info cfg))
      else if t = FROB_B1 then Inr (B1 (cfg_info cfg))
      else if t = FROB_B2 then Inr (B2 (zero_b2\<lparr>b2_info := cfg_info cfg\<rparr>))
      else if t = FROB_T4 then
        Inr (T4 (cfg_supported_versions cfg @ drop (length (cfg_supported_versions cfg)) zero_t4))
      else if t = FROB_T5 then Inr (T5 (info_version (cfg_info cfg)))
      else if t = FROB_D5 then Inr (D5 (cfg_parameters cfg))
      else rbind (frob_type_to_string t) (\<lambda>_. Inl Assert_Failed))"

section \<open>One request\<close>

definition response_to :: "config \<Rightarrow> frob_msg \<Rightarrow> frob_msg outcome" where
  "response_to cfg msg =
     (let t = hdr_type (msg_header msg) + 1 in
      rbind (construct_hardcoded_message_body cfg t) (\<lambda>b.
        Inr \<lparr>msg_magic = FROB_MAGIC, msg_header = \<lparr>hdr_type = t, hdr_token = hdr_token (msg_header msg)\<rparr>,
             msg_body = b, msg_attr = zero_attr\<rparr>))"

text \<open>
  The body of the loop for the bytes borrowed: what is handed to \<open>sus_write\<close>, if anything, and
  \<open>rsp_buf\<close>. One byte (a bad checksum) is returned without looking at it.
\<close>

definition autoresponder_step ::
  "config \<Rightarrow> byte list \<Rightarrow> byte list \<Rightarrow> (byte list option \<times> byte list) outcome" where
  "autoresponder_step cfg rsp_buf p =
     (if length p > 1 then
        rbind (xparse_message (drop 1 p)) (\<lambda>msg.
        rbind (response_to cfg msg) (\<lambda>response.
        rbind (serialize 1024 rsp_buf response) (\<lambda>(w, buf).
          Inr (if w < 0 then None else Some (take (nat w) buf), buf))))
      else Inr (None, rsp_buf))"

text \<open>The loop over the requests borrowed one after the other: the answers written.\<close>

fun autoresponder_run ::
  "config \<Rightarrow> byte list \<Rightarrow> byte list list \<Rightarrow> (byte list list \<times> byte list) outcome" where
  "autoresponder_run cfg rsp_buf [] = Inr ([], rsp_buf)"
| "autoresponder_run cfg rsp_buf (p # ps) =
     rbind (autoresponder_step cfg rsp_buf p) (\<lambda>(out, buf).
     rbind (autoresponder_run cfg buf ps) (\<lambda>(outs, buf').
       Inr ((case out of None \<Rightarrow> outs | Some w \<Rightarrow> w # outs), buf')))"

definition autoresponder :: "kernel_file option \<Rightarrow> byte list \<Rightarrow> byte list list \<Rightarrow> (byte list list \<times> byte list) outcome" where
  "autoresponder f rsp_buf ps =
     rbind (load_d5_from_file f) (\<lambda>d5. autoresponder_run (builtin_config d5) rsp_buf ps)"

section \<open>Facts\<close>

lemma xparse_payload:
  "msg_ok m \<Longrightarrow> xparse_message (payload (msg_header m) (msg_ops m)) = Inr m"
  using msg_ok_facts(5) [of m 0 0] by (simp add: xparse_message_def blank_msg_def)

lemma builtin_info_ok: "info_ok (cfg_info (builtin_config d5))"
  by (simp add: info_ok_def builtin_config_def text_field_pad cstr_pad rl_a_def)

text \<open>The requests that are answered, with the answer's body.\<close>

definition answer_body :: "config \<Rightarrow> frob_body \<Rightarrow> frob_body option" where
  "answer_body cfg b =
     (case b of
        T1 \<Rightarrow> Some (T2 (cfg_info cfg))
      | T2 _ \<Rightarrow> Some T3
      | D4 \<Rightarrow> Some (D5 (cfg_parameters cfg))
      | B1 _ \<Rightarrow> Some (B2 (zero_b2\<lparr>b2_info := cfg_info cfg\<rparr>))
      | K0 _ \<Rightarrow> Some K1
      | _ \<Rightarrow> None)"

definition cfg_ok :: "config \<Rightarrow> bool" where
  "cfg_ok cfg \<longleftrightarrow> info_ok (cfg_info cfg) \<and> d5_ok (cfg_parameters cfg)"

definition answer :: "frob_msg \<Rightarrow> frob_body \<Rightarrow> frob_msg" where
  "answer m b = \<lparr>msg_magic = FROB_MAGIC,
     msg_header = \<lparr>hdr_type = body_type b, hdr_token = hdr_token (msg_header m)\<rparr>,
     msg_body = b, msg_attr = zero_attr\<rparr>"

lemma response_answer:
  assumes "msg_ok m" "answer_body cfg (msg_body m) = Some b"
  shows "response_to cfg m = Inr (answer m b)"
  using assms
  by (cases "msg_body m") (auto simp: answer_body_def response_to_def msg_ok_def answer_def
      construct_hardcoded_message_body_def frob_enum Let_def)

lemma answer_msg_ok:
  assumes "msg_ok m" "cfg_ok cfg" "answer_body cfg (msg_body m) = Some b"
  shows "msg_ok (answer m b)"
  using assms
  by (cases "msg_body m") (auto simp: answer_body_def msg_ok_def answer_def cfg_ok_def b2_ok_def zero_b2_def)

text \<open>Every answer fits into the 1024 bytes of \<open>rsp_buf\<close>.\<close>

lemma answers_fit:
  assumes "cfg_ok cfg" "answer_body cfg b = Some a"
  shows "wire_need (answer m a) \<le> 1024" "length (wire_text (answer m a)) \<le> 1024"
proof -
  have "sum_list (map op_bound (msg_ops (answer m a))) \<le> 1008"
    using assms
    by (cases b) (auto simp: answer_body_def answer_def msg_ops_def body_ops_def frob_enum cfg_ok_def info_ok_def
        d5_ok_def info_ops_def d5_ops_def b2_ops_def zero_b2_def FCOPY_def UCOPY_def dest!: text_field_length)
  then show "wire_need (answer m a) \<le> 1024" "length (wire_text (answer m a)) \<le> 1024"
    using wire_bound [of "answer m a"] by simp_all
qed

lemma step_answers:
  assumes "msg_ok m" "cfg_ok cfg" "answer_body cfg (msg_body m) = Some b" "length rsp_buf = 1024"
  shows "\<exists>buf. autoresponder_step cfg rsp_buf (STX # payload (msg_header m) (msg_ops m)) =
      Inr (Some (wire_text (answer m b)), buf) \<and> length buf = 1024"
proof -
  obtain buf where "serialize 1024 rsp_buf (answer m b) = Inr (int (length (wire_text (answer m b))), buf)"
    "take (length (wire_text (answer m b))) buf = wire_text (answer m b)" "length buf = 1024"
    using serialize_ok [OF answer_msg_ok [OF assms(1-3)], of 1024 rsp_buf] answers_fit [OF assms(2,3)] assms(4) by auto
  then show ?thesis
    using xparse_payload [OF assms(1)] response_answer [OF assms(1,3)] payload_nonempty [of "msg_header m" "msg_ops m"]
    by (simp add: autoresponder_step_def del: payload_nonempty)
qed

text \<open>A run of requests: every one is answered, in order.\<close>

lemma run_answers:
  assumes "cfg_ok cfg" "length rsp_buf = 1024"
    and "list_all (\<lambda>(m, b). msg_ok m \<and> answer_body cfg (msg_body m) = Some b) qs"
  shows "\<exists>buf. autoresponder_run cfg rsp_buf (map (\<lambda>(m, b). STX # payload (msg_header m) (msg_ops m)) qs) =
    Inr (map (\<lambda>(m, b). wire_text (answer m b)) qs, buf)"
  using assms(2,3)
proof (induction qs arbitrary: rsp_buf)
  case (Cons q qs)
  obtain m b where q: "q = (m, b)" by (cases q)
  obtain buf where "autoresponder_step cfg rsp_buf (STX # payload (msg_header m) (msg_ops m)) =
      Inr (Some (wire_text (answer m b)), buf)" "length buf = 1024"
    using step_answers [of m cfg b rsp_buf] Cons.prems assms(1) q by auto
  then show ?case using Cons.IH [of buf] Cons.prems q by auto
qed simp

text \<open>The types one higher than a request for which no body is built in: the process aborts.\<close>

definition unanswerable :: "frob_body \<Rightarrow> bool" where
  "unanswerable b \<longleftrightarrow> (case b of S1 _ \<Rightarrow> True | T5 _ \<Rightarrow> True | D5 _ \<Rightarrow> True | B2 _ \<Rightarrow> True | B3 _ \<Rightarrow> True
     | B4 _ \<Rightarrow> True | K1 \<Rightarrow> True | _ \<Rightarrow> False)"

lemma step_aborts:
  assumes "msg_ok m" "unanswerable (msg_body m)"
  shows "autoresponder_step cfg rsp_buf (STX # payload (msg_header m) (msg_ops m)) = Inl Assert_Failed"
proof -
  have names: "\<exists>e. rbind (frob_type_to_string t) (\<lambda>_. Inl Assert_Failed) = (Inl e :: frob_body outcome) \<and> e = Assert_Failed" for t
    by (cases "frob_type_to_string t")
      (auto simp: frob_type_to_string_def class_to_char_def Let_def rbind_def split: if_splits sum.splits)
  have "response_to cfg m = Inl Assert_Failed"
    using assms names
    by (cases "msg_body m") (auto simp: unanswerable_def response_to_def msg_ok_def
        construct_hardcoded_message_body_def frob_enum Let_def)
  then show ?thesis
    using xparse_payload [OF assms(1)] payload_nonempty [of "msg_header m" "msg_ops m"]
    by (simp add: autoresponder_step_def del: payload_nonempty)
qed

text \<open>Whatever cannot be parsed ends the process, by exit or by the assertion of a fault.\<close>

lemma step_unparsed:
  assumes "length p > 1" "parse_message (drop 1 p) (blank_msg 0) = Inr (r, m)" "r \<noteq> 0"
  shows "autoresponder_step cfg rsp_buf p = Inl Exited"
  using assms by (simp add: autoresponder_step_def xparse_message_def)

section \<open>The shipped configuration\<close>

text \<open>The contents of \<open>d5.txt\<close>, and the parameters it stands for.\<close>

definition d5_file :: "byte list" where
  "d5_file = lit ''0'' @ FS # lit ''D5'' @ FS # lit ''40'' @ FS # lit ''20'' @ FS # lit ''9'' @ FS # lit ''20'' @ FS #
     lit ''1'' @ FS # lit ''1'' @ FS # lit ''1'' @ FS # lit ''26'' @ FS # lit ''114'' @ FS # lit ''128'' @ FS #
     lit ''396'' @ FS # lit ''255'' @ FS # lit ''1000'' @ FS # lit ''9999'' @ FS # lit ''4'' @ FS # lit ''20'' @ FS #
     lit ''O'' @ US # lit ''C'' @ US # lit ''X'' @ US # lit ''X'' @ US # US # lit ''Up'' @ US # lit ''Dn'' @ US #
     lit ''Up'' @ US # lit ''Dn'' @ US # FS # lit ''2'' @ FS # lit ''1'' @ FS # lit ''1'' @ FS # lit ''1'' @ FS #
     lit ''1'' @ [FS]"

definition shipped_d5 :: frob_d5 where
  "shipped_d5 = \<lparr>display_lc = 4, display_cpl = 20, printer_cpl = 40, printer_cpl2x = 20, printer_cpl4x = 9,
     printer_cpln = 20, printer_max_barcode_length = 26, printer_max_qrcode_length = 114,
     printer_max_bitmap_count = 128, printer_max_bitmap_width = 396, printer_max_bitmap_height = 255,
     printer_aspect_ratio = 1000, printer_buffer_max_lines = 9999,
     device_topo = DEVICE_TYPE_EFT_WITH_PINPAD_EXTERNAL,
     key_enter = pad 16 (lit ''O''), key_cancel = pad 16 (lit ''C''), key_check = pad 16 (lit ''X''),
     key_backspace = pad 16 (lit ''X''), key_delete = zeros 16, key_up = pad 16 (lit ''Up''),
     key_down = pad 16 (lit ''Dn''), key_left = pad 16 (lit ''Up''), key_right = pad 16 (lit ''Dn''),
     printer_h2 = True, printer_h4 = True, printer_inv = True, d5_nfc = True, d5_ccr = True, d5_mcr = True,
     d5_bar = True\<rparr>"

definition d5_msg :: frob_msg where
  "d5_msg = \<lparr>msg_magic = FROB_MAGIC, msg_header = \<lparr>hdr_type = FROB_D5, hdr_token = 0\<rparr>,
     msg_body = D5 shipped_d5, msg_attr = zero_attr\<rparr>"

lemma zeros_text: "text_field n P (zeros n)" "cstr (zeros n) = []"
  by (cases n; simp add: text_field_def cstr_def zeros_def pad_def)+

lemma shipped_d5_ok: "d5_ok shipped_d5"
  by (simp add: d5_ok_def shipped_d5_def text_field_pad zeros_text rl_a_def)

lemma d5_msg_ok: "msg_ok d5_msg"
  by (simp add: msg_ok_def d5_msg_def shipped_d5_ok)

lemma d5_file_payload: "payload (msg_header d5_msg) (msg_ops d5_msg) = d5_file"
  by (simp add: payload_def d5_msg_def msg_ops_def body_ops_def frob_enum d5_ops_def shipped_d5_def FCOPY_def UCOPY_def
      d5_file_def print_X_def print_u_def to_digits.simps decdig_def hexdig_def cstr_pad zeros_text)

text \<open>The configuration that the program starts with when it finds that file.\<close>

definition shipped_config :: config where
  "shipped_config = builtin_config shipped_d5"

lemma shipped_config_ok: "cfg_ok shipped_config"
  using builtin_info_ok [of shipped_d5] shipped_d5_ok by (simp add: cfg_ok_def shipped_config_def builtin_config_def)

lemma load_shipped: "load_d5_from_file (Some (d5_file, [])) = Inr shipped_d5"
proof -
  have "length d5_file = 88" by (simp add: d5_file_def)
  moreover have "xparse_message d5_file = Inr d5_msg" using xparse_payload [OF d5_msg_ok] d5_file_payload by simp
  ultimately show ?thesis
    by (simp add: load_d5_from_file_def xslurp_def slurp_def eread_def rread_quiet body_d5_def d5_msg_def)
qed

section \<open>The whole task\<close>

text \<open>What the task gets for a message: the frame without its end.\<close>

definition request :: "frob_msg \<Rightarrow> byte list" where
  "request m = STX # payload (msg_header m) (msg_ops m)"

text \<open>A conversation is a list of messages with the bodies of their answers.\<close>

definition conversation :: "config \<Rightarrow> (frob_msg \<times> frob_body) list \<Rightarrow> bool" where
  "conversation cfg qs \<longleftrightarrow> list_all (\<lambda>(m, b). msg_ok m \<and> answer_body cfg (msg_body m) = Some b) qs"

lemma run_conversation:
  assumes "cfg_ok cfg" "length rsp_buf = 1024" "conversation cfg qs"
  shows "\<exists>buf. autoresponder_run cfg rsp_buf (map (\<lambda>(m, b). request m) qs) =
    Inr (map (\<lambda>(m, b). wire_text (answer m b)) qs, buf)"
  using run_answers [OF assms(1,2)] assms(3) by (simp add: conversation_def request_def)

lemma run_append:
  "autoresponder_run cfg b (ps @ qs) =
     rbind (autoresponder_run cfg b ps) (\<lambda>(o1, b1). rbind (autoresponder_run cfg b1 qs) (\<lambda>(o2, b2). Inr (o1 @ o2, b2)))"
proof (induction ps arbitrary: b)
  case (Cons p ps)
  show ?case
    by (cases "autoresponder_step cfg b p") (auto simp: Cons rbind_assoc rbind_def split: sum.splits option.splits)
qed (simp add: rbind_def split: sum.splits)

text \<open>
  C3. The autoresponder, once it has read its configuration, answers every communication test,
  configuration request, key pairing request and interaction response it is handed, in order and
  each with the token of the request; nothing is skipped for lack of space.
\<close>

theorem autoresponder_answers:
  assumes "load_d5_from_file f = Inr d5" "d5_ok d5" "length rsp_buf = 1024" "conversation (builtin_config d5) qs"
  shows "\<exists>buf. autoresponder f rsp_buf (map (\<lambda>(m, b). request m) qs) =
    Inr (map (\<lambda>(m, b). wire_text (answer m b)) qs, buf)"
proof -
  have "cfg_ok (builtin_config d5)"
    using builtin_info_ok [of d5] assms(2) by (simp add: cfg_ok_def builtin_config_def)
  then show ?thesis using run_conversation [OF _ assms(3,4)] assms(1) by (simp add: autoresponder_def)
qed

lemma ping_conversation: "conversation shipped_config [(ping_msg 7, T2 (cfg_info shipped_config))]"
  using ping_msg_ok [of 7] by (simp add: conversation_def answer_body_def) (simp add: ping_msg_def)

theorem autoresponder_answers_witness:
  "\<exists>buf. autoresponder (Some (d5_file, [])) (zeros 1024) [request (ping_msg 7)] =
     Inr ([wire_text (answer (ping_msg 7) (T2 (cfg_info shipped_config)))], buf)"
  using autoresponder_answers [OF load_shipped shipped_d5_ok, of "zeros 1024" "[(ping_msg 7, T2 (cfg_info shipped_config))]"]
    ping_conversation by (simp add: shipped_config_def)

text \<open>
  C24. A well-formed payment, version selection, configuration, key message or interaction claim aborts the
  process whatever was answered before it: there is no body for the type one higher, and the default
  case is an assertion.
\<close>

theorem request_aborts:
  assumes "load_d5_from_file f = Inr d5" "d5_ok d5" "length rsp_buf = 1024" "conversation (builtin_config d5) qs"
    and "msg_ok m" "unanswerable (msg_body m)"
  shows "autoresponder f rsp_buf (map (\<lambda>(m, b). request m) qs @ request m # ps) = Inl Assert_Failed"
proof -
  have "cfg_ok (builtin_config d5)"
    using builtin_info_ok [of d5] assms(2) by (simp add: cfg_ok_def builtin_config_def)
  then obtain o1 b1 where run: "autoresponder_run (builtin_config d5) rsp_buf (map (\<lambda>(m, b). request m) qs) = Inr (o1, b1)"
    using run_conversation [OF _ assms(3,4)] by blast
  have "autoresponder_step (builtin_config d5) b1 (request m) = Inl Assert_Failed"
    using step_aborts [OF assms(5,6)] by (simp add: request_def)
  then show ?thesis using assms(1) run by (simp add: autoresponder_def run_append)
qed

theorem request_aborts_witness:
  "autoresponder (Some (d5_file, [])) (zeros 1024) [request (ping_msg 7), request payment_msg, request (ping_msg 8)] =
     Inl Assert_Failed"
proof -
  have "unanswerable (msg_body payment_msg)" by (simp add: unanswerable_def payment_msg_def)
  from request_aborts [OF load_shipped shipped_d5_ok _ _ payment_msg_ok this, of "zeros 1024"
      "[(ping_msg 7, T2 (cfg_info shipped_config))]" "[request (ping_msg 8)]"]
  show ?thesis using ping_conversation by (simp add: shipped_config_def)
qed

end
