(* ===== verification/Wireprotocol.thy ===== *)
theory Wireprotocol
  imports Frame
begin

text \<open>
  \<open>fsm/wireprotocol.rl\<close>: the task \<open>fsm_wireformat\<close> reads the main channel into one buffer, finds
  frames and lends them in slot 0. What it lends is modelled as the list of its calls of
  \<open>sus_lend\<close>; the buffer does not change while it is lent, since only this task writes to it.
\<close>

section \<open>The automaton\<close>

text \<open>
  \<open>((any-stx)* frame)*\<close>: after the checksum byte it is in its initial state again. ETX right after
  STX has no transition.
\<close>

datatype wire_cs = W_error | W_start | W_stx | W_data | W_etx

text \<open>
  The local variables. \<open>lrc\<close> is a \<open>char\<close>, signed on the platforms the program is built for; \<open>start\<close>
  is an offset in \<open>buf\<close>, as all pointers into it.
\<close>

record wire_state =
  ws_cs :: wire_cs
  ws_lrc :: byte
  ws_start :: nat

text \<open>
  The calls \<open>sus_lend(0, 1, "\x03")\<close> and \<open>sus_lend(0, fpc - start, buf)\<close>; the size is what the
  difference of the pointers is, which \<open>size_t\<close> takes modulo \<open>2^64\<close>.
\<close>

datatype wire_lend = Lend_NOK | Lend_Frame int

text \<open>\<open>lrc != fc\<close> compares the signed \<open>lrc\<close> with the unsigned character.\<close>

definition lrc_differs :: "byte \<Rightarrow> byte \<Rightarrow> bool" where
  "lrc_differs lrc b \<longleftrightarrow> sint lrc \<noteq> uint b"

fun wire_exec :: "wire_state \<Rightarrow> nat \<Rightarrow> byte list \<Rightarrow> wire_state \<times> wire_lend list" where
  "wire_exec st pos [] = (st, [])"
| "wire_exec st pos (b # bs) =
     (case ws_cs st of
        W_error \<Rightarrow> (st, [])
      | W_start \<Rightarrow>
          wire_exec (if b = STX then st\<lparr>ws_cs := W_stx, ws_lrc := 0\<rparr> else st) (Suc pos) bs
      | W_stx \<Rightarrow>
          if b = ETX then (st\<lparr>ws_cs := W_error\<rparr>, [])
          else wire_exec (st\<lparr>ws_cs := W_data, ws_start := pos, ws_lrc := ws_lrc st XOR b\<rparr>) (Suc pos) bs
      | W_data \<Rightarrow>
          wire_exec (st\<lparr>ws_cs := (if b = ETX then W_etx else W_data), ws_lrc := ws_lrc st XOR b\<rparr>) (Suc pos) bs
      | W_etx \<Rightarrow>
          (case wire_exec (st\<lparr>ws_cs := W_start\<rparr>) (Suc pos) bs of (st', ls) \<Rightarrow>
             (st', (if lrc_differs (ws_lrc st) b then Lend_NOK else Lend_Frame (int pos - int (ws_start st))) # ls)))"

section \<open>fsm_wireformat\<close>

text \<open>
  One read fills the beginning of \<open>buf\<close>; what is lent is the pair of size and memory. The bytes of
  a frame are the first \<open>size\<close> bytes of the memory, or the literal for a bad checksum.
\<close>

definition lent_bytes :: "byte list \<Rightarrow> wire_lend \<Rightarrow> int \<times> byte list" where
  "lent_bytes buf l = (case l of Lend_NOK \<Rightarrow> (1, [ETX, 0]) | Lend_Frame n \<Rightarrow> (n, buf))"

definition wire_read :: "wire_state \<Rightarrow> byte list \<Rightarrow> byte list \<Rightarrow> wire_state \<times> byte list \<times> (int \<times> byte list) list" where
  "wire_read st buf chunk =
     (let buf' = chunk @ drop (length chunk) buf in
      case wire_exec st 0 chunk of (st', ls) \<Rightarrow> (st', buf', map (lent_bytes buf') ls))"

fun wire_reads ::
  "wire_state \<Rightarrow> byte list \<Rightarrow> byte list list \<Rightarrow> wire_state \<times> byte list \<times> (int \<times> byte list) list" where
  "wire_reads st buf [] = (st, buf, [])"
| "wire_reads st buf (c # cs) =
     (case wire_read st buf c of (st1, buf1, ls1) \<Rightarrow>
      case wire_reads st1 buf1 cs of (st2, buf2, ls2) \<Rightarrow> (st2, buf2, ls1 @ ls2))"

text \<open>The descriptor it reads; the member \<open>infd\<close> of its arguments is not looked at.\<close>

definition wire_fd :: int where "wire_fd = 7"

text \<open>
  The task: the chunks that \<open>sus_read\<close> delivers, then end of file or an error. \<open>lrc\<close> and \<open>buf\<close> are not
  initialised. Result and lent data.
\<close>

definition fsm_wireformat :: "byte \<Rightarrow> byte list \<Rightarrow> byte list list \<Rightarrow> int \<times> (int \<times> byte list) list" where
  "fsm_wireformat lrc0 buf0 chunks =
     (case wire_reads \<lparr>ws_cs = W_start, ws_lrc = lrc0, ws_start = 0\<rparr> buf0 chunks of (st, buf, ls) \<Rightarrow>
        (if ws_cs st = W_error then - 1 else 0, ls))"

section \<open>The checksum comparison\<close>

text \<open>A correct checksum is accepted exactly when it is below 128.\<close>

lemma lrc_differs_iff: "lrc_differs l b \<longleftrightarrow> l \<noteq> b \<or> 128 \<le> unat b"
proof -
  have r: "- 128 \<le> sint l" "sint l < 128" "uint l = sint l mod 256"
    using sint_ge [of l] sint_lt [of l] uint_sint [of l] by (simp_all add: take_bit_eq_mod)
  have u: "0 \<le> uint b" "unat b = nat (uint b)" "l = b \<longleftrightarrow> uint l = uint b"
    by (simp_all add: word_uint_eq_iff)
  have "sint l = uint b \<longleftrightarrow> uint l = uint b \<and> uint b < 128"
  proof
    assume "sint l = uint b"
    with r u(1) show "uint l = uint b \<and> uint b < 128" by simp
  next
    assume a: "uint l = uint b \<and> uint b < 128"
    have "0 \<le> sint l"
    proof (rule ccontr)
      assume "\<not> 0 \<le> sint l"
      then have "sint l mod 256 = sint l + 256" using r by (intro mod_pos_pos_trivial [of "sint l + 256" 256, simplified]) auto
      with r a \<open>\<not> 0 \<le> sint l\<close> show False by simp
    qed
    with r a show "sint l = uint b" by simp
  qed
  moreover have "int (unat b) = uint b" by simp
  then have "uint b < 128 \<longleftrightarrow> unat b < 128" by linarith
  ultimately show ?thesis using u(3) by (auto simp: lrc_differs_def)
qed

lemma lrc_differs_high: "128 \<le> unat b \<Longrightarrow> lrc_differs l b"
  by (simp add: lrc_differs_iff)

section \<open>Running over the parts of the input\<close>

abbreviation wire_at :: "wire_cs \<Rightarrow> byte \<Rightarrow> nat \<Rightarrow> wire_state" where
  "wire_at cs l st \<equiv> \<lparr>ws_cs = cs, ws_lrc = l, ws_start = st\<rparr>"

lemma wire_exec_junk:
  "STX \<notin> set xs \<Longrightarrow> wire_exec (wire_at W_start l st) pos (xs @ ys) = wire_exec (wire_at W_start l st) (pos + length xs) ys"
  by (induction xs arbitrary: pos) auto

lemma wire_exec_data:
  "ETX \<notin> set xs \<Longrightarrow>
   wire_exec (wire_at W_data l st) pos (xs @ ys) = wire_exec (wire_at W_data (lrc_loop l xs) st) (pos + length xs) ys"
  by (induction xs arbitrary: l pos) auto

lemma wire_exec_first:
  "d \<noteq> [] \<Longrightarrow> ETX \<notin> set d \<Longrightarrow>
   wire_exec (wire_at W_stx l st) pos (d @ ys) = wire_exec (wire_at W_data (lrc_loop l d) pos) (pos + length d) ys"
  by (cases d) (auto simp: wire_exec_data)

lemma wire_exec_frame:
  assumes "STX \<notin> set junk" "d \<noteq> []" "ETX \<notin> set d"
  shows "wire_exec (wire_at W_start l st) pos (junk @ STX # d @ ETX # c # rest) =
    (case wire_exec (wire_at W_start (lrc_loop 0 (d @ [ETX])) (pos + length junk + 1)) (Suc (Suc (Suc (pos + length junk + length d)))) rest of
       (st', ls) \<Rightarrow> (st', (if lrc_differs (lrc_loop 0 (d @ [ETX])) c then Lend_NOK else Lend_Frame (1 + int (length d))) # ls))"
  using assms by (simp add: wire_exec_junk wire_exec_first)

lemma wire_exec_frame_lends:
  assumes "STX \<notin> set junk" "d \<noteq> []" "ETX \<notin> set d"
  shows "\<exists>m k q. snd (wire_exec (wire_at W_start l st) pos (junk @ STX # d @ ETX # c # rest)) =
    (if lrc_differs (lrc_loop 0 (d @ [ETX])) c then Lend_NOK else Lend_Frame (1 + int (length d))) #
    snd (wire_exec (wire_at W_start m k) q rest)"
  using wire_exec_frame [OF assms, of l st pos c rest] by (auto split: prod.splits) (metis snd_conv)+

section \<open>Against the frame finder\<close>

text \<open>
  The reference for one read: frame after frame as the frame finder of theory \<open>Frame\<close> sees them,
  each on what the one before left.
\<close>

function frames_of :: "byte list \<Rightarrow> (nat \<times> bool) list" where
  "frames_of inp =
     (case find_frame inp of
        None \<Rightarrow> []
      | Some (s, e, ok) \<Rightarrow> (e - s, ok) # frames_of (drop (e + 2) inp))"
  by pat_completeness auto
termination
  by (relation "measure length") (auto simp: find_frame_def Let_def split: if_splits)

declare frames_of.simps [simp del]

lemma frames_of_whole:
  assumes "STX \<notin> set junk" "ETX \<notin> set d" "d \<noteq> []"
  shows "frames_of (junk @ STX # d @ ETX # c # rest) = (length d, lrc_loop 0 (d @ [ETX]) = c) # frames_of rest"
  using find_frame_body [of junk d c rest] assms
  by (simp add: frames_of.simps [of "junk @ STX # d @ ETX # c # rest"] numeral_3_eq_3)

definition lend_for :: "nat \<times> bool \<Rightarrow> wire_lend" where
  "lend_for f = (if snd f then Lend_Frame (1 + int (fst f)) else Lend_NOK)"

text \<open>All bytes below 128, as in every frame of the protocol.\<close>

definition ascii :: "byte list \<Rightarrow> bool" where
  "ascii bs \<longleftrightarrow> list_all (\<lambda>b. unat b < 128) bs"

lemma wire_frames:
  assumes "ascii inp"
  shows "snd (wire_exec (wire_at W_start l st) pos inp) = map lend_for (frames_of inp)"
  using assms
proof (induction "length inp" arbitrary: inp l st pos rule: less_induct)
  case less
  show ?case
  proof (cases inp rule: frame_cases)
    case no_stx
    then show ?thesis
      using wire_exec_junk [of inp l st pos "[]"]
      by (simp add: frames_of.simps [of inp] find_frame_def takeWhile_absent Let_def)
  next
    case (empty junk r)
    then have "find_frame inp = None" by (simp add: find_frame_def takeWhile_first Let_def)
    then have "frames_of inp = []" by (simp add: frames_of.simps [of inp])
    then show ?thesis using empty by (simp add: wire_exec_junk)
  next
    case (open_data junk d)
    then have "find_frame inp = None"
      by (simp add: find_frame_def takeWhile_first takeWhile_absent Let_def)
    then have "frames_of inp = []" by (simp add: frames_of.simps [of inp])
    then show ?thesis
      using open_data wire_exec_first [of d 0 st "Suc (pos + length junk)" "[]"]
      by (cases "d = []") (auto simp: wire_exec_junk)
  next
    case (no_lrc junk d)
    then have "find_frame inp = None"
      by (simp add: find_frame_def takeWhile_first Let_def)
    then have "frames_of inp = []" by (simp add: frames_of.simps [of inp])
    then show ?thesis using no_lrc by (simp add: wire_exec_junk wire_exec_first)
  next
    case (whole junk d c rest)
    have c: "unat c < 128" "ascii rest" using less.prems whole by (auto simp: ascii_def)
    have "snd (wire_exec (wire_at W_start m k) q rest) = map lend_for (frames_of rest)" for m k q
      using less.hyps [of rest] whole c by simp
    moreover have "frames_of inp = (length d, lrc_loop 0 (d @ [ETX]) = c) # frames_of rest"
      using whole frames_of_whole by simp
    ultimately show ?thesis
      using wire_exec_frame_lends [of junk d l st pos c rest] whole c
      by (auto simp: lend_for_def lrc_differs_iff)
  qed
qed

text \<open>
  What the borrower sees of the first frame, when it begins the read: STX and the data.
\<close>

lemma wire_first:
  assumes "d \<noteq> []" "ETX \<notin> set d" "unat (lrc_loop 0 (d @ [ETX])) < 128"
    and chunk_def: "chunk = STX # d @ ETX # lrc_loop 0 (d @ [ETX]) # rest"
  shows "\<exists>st' mem ls. wire_read (wire_at W_start l st) buf chunk = (st', mem, (int (length (STX # d)), mem) # ls)
    \<and> take (length (STX # d)) mem = STX # d"
proof -
  obtain st' ls where "wire_exec (wire_at W_start l st) 0 chunk = (st', Lend_Frame (1 + int (length d)) # ls)"
    using wire_exec_frame [of "[]" d l st 0 "lrc_loop 0 (d @ [ETX])" rest] assms(1-3)
    by (auto simp: chunk_def lrc_differs_iff split: prod.splits)
  then show ?thesis
    by (simp add: wire_read_def Let_def lent_bytes_def) (simp add: chunk_def)
qed

text \<open>Every frame that is lent, not only the first, is lent as the beginning of the buffer.\<close>

lemma wire_lends_start:
  assumes "wire_read st buf chunk = (st', buf', ls)" "(n, mem) \<in> set ls" "mem \<noteq> [ETX, 0]"
  shows "mem = buf' \<and> buf' = chunk @ drop (length chunk) buf"
  using assms by (auto simp: wire_read_def Let_def lent_bytes_def split: prod.splits wire_lend.splits)

section \<open>The task against the frame finder\<close>

text \<open>
  The daemon's way through a buffer: \<open>frob_frame_process\<close> again and again, each time from behind the
  checksum of the frame it found last, until it answers EAGAIN. Size and verdict of each frame.
\<close>

lemma finder_progress:
  assumes "frob_frame_process buf (fresh_fsm p (length buf)) = (e, f)" "e \<noteq> EAGAIN"
  shows "p < length buf" "\<exists>pe. fst_pe f = Some pe \<and> p \<le> pe"
proof -
  show "p < length buf"
    using frame_process_at [where pe = "length buf" and p = p and buf = buf] assms by (cases "p < length buf") (auto simp: find_frame_def)
  show "\<exists>pe. fst_pe f = Some pe \<and> p \<le> pe"
    using frame_process_end [OF assms] by (simp add: fresh_fsm_def)
qed

function finder_runs :: "byte list \<Rightarrow> nat \<Rightarrow> (nat \<times> errno) list" where
  "finder_runs buf p =
     (case frob_frame_process buf (fresh_fsm p (length buf)) of (e, f) \<Rightarrow>
        if e = EAGAIN then []
        else case fst_pe f of
          None \<Rightarrow> []
        | Some pe \<Rightarrow> (pe - fst_p f, e) # finder_runs buf (pe + 2))"
  by pat_completeness auto
termination
proof (relation "measure (\<lambda>(buf, p). length buf - p)", goal_cases)
  case (2 buf p e f pe)
  have "p < length buf" "p \<le> pe"
    using finder_progress [OF 2(1) [symmetric] 2(2)] 2(3) by auto
  then show ?case by auto
qed simp

declare finder_runs.simps [simp del]

lemma finder_runs_frames:
  "finder_runs buf p = map (\<lambda>(n, ok). (n, if ok then 0 else EBADMSG)) (frames_of (drop p buf))"
proof (induction buf p rule: finder_runs.induct)
  case (1 buf p)
  obtain e f where run: "frob_frame_process buf (fresh_fsm p (length buf)) = (e, f)" by fastforce
  show ?case
  proof (cases "find_frame (drop p buf)")
    case None
    then have "e = EAGAIN" using frame_process_at [where pe = "length buf" and p = p and buf = buf] run by simp
    then show ?thesis using None run by (simp add: finder_runs.simps [of buf p] frames_of.simps [of "drop p buf"])
  next
    case (Some x)
    obtain s n ok where x: "x = (s, n, ok)" by (cases x)
    have f: "e = (if ok then 0 else EBADMSG)" "fst_p f = p + s" "fst_pe f = Some (p + n)"
      using frame_process_at [where pe = "length buf" and p = p and buf = buf] run Some x by simp_all
    then have e: "e \<noteq> EAGAIN" by (simp add: errno_defs)
    have "finder_runs buf (p + n + 2) = map (\<lambda>(n, ok). (n, if ok then 0 else EBADMSG)) (frames_of (drop (p + n + 2) buf))"
      using 1 [OF run [symmetric] e f(3)] by (simp add: case_prod_beta')
    then show ?thesis
      using run f e Some x
      by (simp add: finder_runs.simps [of buf p] frames_of.simps [of "drop p buf"] add.commute add.left_commute)
  qed
qed

text \<open>
  C14. On input below 128, as every byte the protocol uses, \<open>fsm_wireformat\<close> calls \<open>sus_lend\<close> once for every
  frame that \<open>frob_frame_process\<close> finds when the daemon runs it from behind each frame to the next, and in
  the same order: with the size of the frame's data and its STX where that answers 0, with the one-byte
  message where it answers EBADMSG. This is about the number, the sizes and the verdicts; which memory
  is lent is another matter.
\<close>

theorem wire_lends_frames:
  assumes "ascii inp"
  shows "snd (wire_exec (wire_at W_start l st) pos inp) =
    map (\<lambda>(n, e). if e = 0 then Lend_Frame (1 + int n) else Lend_NOK) (finder_runs inp 0)"
  using wire_frames [OF assms, of l st pos]
  by (auto simp: finder_runs_frames lend_for_def errno_defs split: prod.splits)

theorem wire_lends_frames_witness:
  "snd (wire_exec (wire_at W_start 0 0) 0 [0x20, STX, 0x41, ETX, 0x42, STX, 0x41, ETX, 0x43, 0x07]) =
     [Lend_Frame 2, Lend_NOK]
   \<and> finder_runs [0x20, STX, 0x41, ETX, 0x42, STX, 0x41, ETX, 0x43, 0x07] 0 = [(1, 0), (1, EBADMSG)]"
proof -
  have "frames_of [0x20, STX, 0x41, ETX, 0x42, STX, 0x41, ETX, 0x43, 0x07] = [(1, True), (1, False)]"
    using frames_of_whole [where junk = "[0x20]" and d = "[0x41]" and c = "0x42" and rest = "[STX, 0x41, ETX, 0x43, 0x07]"]
      frames_of_whole [where junk = "[]" and d = "[0x41]" and c = "0x43" and rest = "[0x07]"]
    by (simp add: wire_defs) (simp add: frames_of.simps [of "[7]"] find_frame_def wire_defs)
  then have runs: "finder_runs [0x20, STX, 0x41, ETX, 0x42, STX, 0x41, ETX, 0x43, 0x07] 0 = [(1, 0), (1, EBADMSG)]"
    by (simp add: finder_runs_frames)
  moreover have "ascii [0x20, STX, 0x41, ETX, 0x42, STX, 0x41, ETX, 0x43, 0x07]"
    by (simp add: ascii_def wire_defs)
  ultimately show ?thesis
    using wire_lends_frames [of "[0x20, STX, 0x41, ETX, 0x42, STX, 0x41, ETX, 0x43, 0x07]" 0 0 0]
    by (simp add: errno_defs)
qed

text \<open>
  C32. A frame with a correct checksum of 128 or more is accepted by \<open>frob_frame_process\<close> and reported as
  damaged by \<open>fsm_wireformat\<close>, whose \<open>lrc\<close> is a signed \<open>char\<close>.
\<close>

theorem high_checksum_rejected:
  assumes "d \<noteq> []" "ETX \<notin> set d" "128 \<le> unat (lrc_loop 0 (d @ [ETX]))"
    and "inp = STX # d @ [ETX, lrc_loop 0 (d @ [ETX])]"
  shows "fst (frob_frame_process inp (fresh_fsm 0 (length inp))) = 0
    \<and> snd (wire_exec (wire_at W_start l st) 0 inp) = [Lend_NOK]"
proof
  show "fst (frob_frame_process inp (fresh_fsm 0 (length inp))) = 0"
    using process_find_frame [of inp] find_frame_body [of "[]" d "lrc_loop 0 (d @ [ETX])" "[]"] assms by simp
  show "snd (wire_exec (wire_at W_start l st) 0 inp) = [Lend_NOK]"
    using wire_exec_frame [of "[]" d l st 0 "lrc_loop 0 (d @ [ETX])" "[]"] assms
    by (simp add: lrc_differs_high del: lrc_loop_append)
qed

theorem high_checksum_witness:
  "snd (wire_exec (wire_at W_start 0 0) 0 [STX, 0xC1, ETX, 0xC2]) = [Lend_NOK]"
  using high_checksum_rejected [of "[0xC1]" "[STX, 0xC1, ETX, 0xC2]" 0 0] by (simp add: wire_defs)

text \<open>
  C31. When one read brings two frames, the second call of \<open>sus_lend\<close> has the size of the second frame but
  points to the start of the buffer: a borrower sees the beginning of the first frame again.
\<close>

theorem second_frame_repeats_first:
  assumes "d1 \<noteq> []" "ETX \<notin> set d1" "d2 \<noteq> []" "ETX \<notin> set d2" "length d2 \<le> length d1"
    and "unat (lrc_loop 0 (d1 @ [ETX])) < 128" "unat (lrc_loop 0 (d2 @ [ETX])) < 128"
    and "chunk = (STX # d1 @ [ETX, lrc_loop 0 (d1 @ [ETX])]) @ STX # d2 @ [ETX, lrc_loop 0 (d2 @ [ETX])]"
  shows "\<exists>st' mem. wire_read (wire_at W_start l st) buf chunk =
      (st', mem, [(int (length d1) + 1, mem), (int (length d2) + 1, mem)])
    \<and> take (length d1 + 1) mem = STX # d1 \<and> take (length d2 + 1) mem = STX # take (length d2) d1"
proof -
  let ?f2 = "STX # d2 @ [ETX, lrc_loop 0 (d2 @ [ETX])]"
  have "\<exists>st2. wire_exec (wire_at W_start m k) q ?f2 = (st2, [Lend_Frame (1 + int (length d2))])" for m k q
    using wire_exec_frame [of "[]" d2 m k q "lrc_loop 0 (d2 @ [ETX])" "[]"] assms(3,4,7)
    by (auto simp: lrc_differs_iff simp del: lrc_loop_append)
  then have "\<exists>st'. wire_exec (wire_at W_start l st) 0 chunk =
      (st', [Lend_Frame (1 + int (length d1)), Lend_Frame (1 + int (length d2))])"
    using wire_exec_frame [of "[]" d1 l st 0 "lrc_loop 0 (d1 @ [ETX])" ?f2] assms(1,2,6,8)
    by (auto simp: lrc_differs_iff simp del: lrc_loop_append split: prod.splits) (metis prod.inject)
  then show ?thesis
    using assms(5,8) by (auto simp: wire_read_def Let_def lent_bytes_def add.commute)
qed

theorem second_frame_witness:
  "\<exists>st' mem. wire_read (wire_at W_start 0 0) (zeros 1024) [STX, 0x41, 0x42, ETX, 0x00, STX, 0x43, ETX, 0x40] =
      (st', mem, [(3, mem), (2, mem)]) \<and> take 3 mem = [STX, 0x41, 0x42] \<and> take 2 mem = [STX, 0x41]"
proof -
  have sizes: "length [0x41, 0x42::byte] + 1 = 3" "length [0x43::byte] + 1 = 2" by simp_all
  have ints: "int (length [0x41, 0x42::byte]) + 1 = 3" "int (length [0x43::byte]) + 1 = 2" by simp_all
  have pre: "take (length [0x43::byte]) [0x41, 0x42::byte] = [0x41]" by simp
  show ?thesis
    using second_frame_repeats_first [where ?d1.0 = "[0x41, 0x42]" and ?d2.0 = "[0x43]" and l = 0 and st = 0
        and buf = "zeros 1024" and chunk = "[STX, 0x41, 0x42, ETX, 0x00, STX, 0x43, ETX, 0x40]",
        unfolded sizes ints pre]
    by (simp add: wire_defs)
qed

end
