(* ===== verification/Frontend.thy ===== *)
theory Frontend
  imports Utils
begin

text \<open>
  \<open>fsm/frontend.rl\<close>: the automaton that acknowledges a frame and hands it on in slot 1. Its state is
  the static variable \<open>cs\<close>, set once before \<open>main\<close> and shared by all calls of \<open>fsm_exec\<close>.
\<close>

section \<open>The automaton\<close>

text \<open>
  \<open>((OK | NAK) | IDEMPOTENT TIMEOUT{0,3} ACK)*\<close>: \<open>FE_sent n\<close> is after IDEMPOTENT and \<open>n\<close> timeouts.
\<close>

datatype frontend_cs = FE_error | FE_start | FE_sent nat

definition IDEMPOTENT :: byte where "IDEMPOTENT = 0x0A"
definition TIMEOUT :: byte where "TIMEOUT = 0"

text \<open>
  What the actions do: a byte written to the main channel, a failed write, which ends the call
  (\<open>fbreak\<close>), and the rest of the input, from the current byte on, lent in slot 1.
\<close>

datatype fe_event = Sent byte | Write_Failed byte | Lent "byte list"

text \<open>
  \<open>fsm_exec(p, pe)\<close>; \<open>wr\<close> says of the next writes whether they succeed (when it is used up they do).
  The result is the state left in \<open>cs\<close> and the actions in order.
\<close>

fun fsm_exec :: "frontend_cs \<Rightarrow> bool list \<Rightarrow> byte list \<Rightarrow> frontend_cs \<times> fe_event list" where
  "fsm_exec cs wr [] = (cs, [])"
| "fsm_exec cs wr (b # bs) =
     (let ok = (wr = [] \<or> hd wr) in
      case cs of
        FE_error \<Rightarrow> (FE_error, [])
      | FE_start \<Rightarrow>
          if b = STX then
            if ok then
              (case fsm_exec FE_start (tl wr) bs of (cs', es) \<Rightarrow> (cs', Sent ACK # Lent (b # bs) # es))
            else (FE_start, [Write_Failed ACK])
          else if b = NAK then
            if ok then
              (case fsm_exec FE_start (tl wr) bs of (cs', es) \<Rightarrow> (cs', Sent NAK # es))
            else (FE_start, [Write_Failed NAK])
          else if b = IDEMPOTENT then fsm_exec (FE_sent 0) wr bs
          else (FE_error, [])
      | FE_sent n \<Rightarrow>
          if b = ACK then fsm_exec FE_start wr bs
          else if b = TIMEOUT \<and> n < 3 then fsm_exec (FE_sent (Suc n)) wr bs
          else (FE_error, []))"

text \<open>\<open>write init\<close> in the constructor \<open>fsm_frontend_init\<close>.\<close>

definition frontend_init :: frontend_cs where "frontend_init = FE_start"

text \<open>The descriptor the acknowledgements are written to.\<close>

definition frontend_fd :: int where "frontend_fd = 6"

text \<open>
  \<open>fsm_frontend_foreign\<close>: one call of \<open>fsm_exec\<close> for everything borrowed from slot 0 (\<open>fsm_frontend_timer\<close>
  calls it with a single null byte).
\<close>

fun fsm_frontend_foreign :: "frontend_cs \<Rightarrow> byte list list \<Rightarrow> frontend_cs \<times> fe_event list" where
  "fsm_frontend_foreign cs [] = (cs, [])"
| "fsm_frontend_foreign cs (m # ms) =
     (case fsm_exec cs [] m of (cs1, es1) \<Rightarrow>
      case fsm_frontend_foreign cs1 ms of (cs2, es2) \<Rightarrow> (cs2, es1 @ es2))"

definition frontend_timer_tick :: "frontend_cs \<Rightarrow> frontend_cs \<times> fe_event list" where
  "frontend_timer_tick cs = fsm_exec cs [] [TIMEOUT]"

text \<open>
  \<open>fsm_frontend_timer\<close>: a tick for each of the \<open>n\<close> reads of the timer that brought something; the body of
  \<open>fsm_frontend_internal\<close> is a comment.
\<close>

fun fsm_frontend_timer :: "frontend_cs \<Rightarrow> nat \<Rightarrow> frontend_cs \<times> fe_event list" where
  "fsm_frontend_timer cs 0 = (cs, [])"
| "fsm_frontend_timer cs (Suc n) =
     (case frontend_timer_tick cs of (cs1, es1) \<Rightarrow>
      case fsm_frontend_timer cs1 n of (cs2, es2) \<Rightarrow> (cs2, es1 @ es2))"

definition fsm_frontend_internal :: int where
  "fsm_frontend_internal = - 1"

section \<open>The first message and those after it\<close>

lemmas fe_defs = IDEMPOTENT_def TIMEOUT_def wire_defs

text \<open>The bytes that have a transition in the initial state.\<close>

definition fe_input :: "byte \<Rightarrow> bool" where
  "fe_input b \<longleftrightarrow> b = STX \<or> b = NAK \<or> b = IDEMPOTENT"

lemma fsm_exec_message:
  assumes "\<not> fe_input b"
  shows "fsm_exec FE_start [] (STX # b # bs) = (FE_error, [Sent ACK, Lent (STX # b # bs)])"
  using assms by (simp add: fe_input_def)

lemma fsm_exec_error: "fsm_exec FE_error wr bs = (FE_error, [])"
  by (cases bs) simp_all

lemma frontend_stuck: "fsm_frontend_foreign FE_error ms = (FE_error, [])"
  by (induction ms) (simp_all add: fsm_exec_error)

lemma frontend_first_only:
  assumes "\<not> fe_input b"
  shows "fsm_frontend_foreign frontend_init ((STX # b # bs) # ms) = (FE_error, [Sent ACK, Lent (STX # b # bs)])"
  using fsm_exec_message [OF assms, of bs] by (simp add: frontend_init_def frontend_stuck)

text \<open>What a bad checksum looks like to it: not the byte its grammar has for a rejection.\<close>

lemma frontend_nok:
  "fsm_frontend_foreign frontend_init ([ETX] # ms) = (FE_error, [])"
  by (simp add: frontend_init_def frontend_stuck fe_defs)

text \<open>A tick of the timer before the first message stops it as well.\<close>

lemma timer_wedges: "fsm_frontend_timer frontend_init (Suc n) = (FE_error, [])"
proof -
  have "frontend_timer_tick FE_error = (FE_error, [])" by (simp add: frontend_timer_tick_def fsm_exec_error)
  then have "fsm_frontend_timer FE_error n = (FE_error, [])" by (induction n) simp_all
  then show ?thesis by (simp add: frontend_timer_tick_def frontend_init_def fe_defs)
qed

end
