(* ===== verification/Pipeline.thy ===== *)
theory Pipeline
  imports Autoresponder Wireprotocol Frontend
begin

text \<open>
  The three tasks of the daemon one after the other, as the slots 0 and 1 connect them: what
  \<open>fsm_wireformat\<close> lends, \<open>fsm_frontend_foreign\<close> acknowledges and lends on, and \<open>autoresponder\<close>
  answers.
\<close>

section \<open>The composition\<close>

text \<open>The bytes a borrower reads from what was lent: \<open>size\<close> bytes from the pointer on.\<close>

definition borrowed_bytes :: "int \<times> byte list \<Rightarrow> byte list" where
  "borrowed_bytes l = take (nat (fst l)) (snd l)"

fun lent_on :: "fe_event list \<Rightarrow> byte list list" where
  "lent_on [] = []"
| "lent_on (Lent p # es) = p # lent_on es"
| "lent_on (e # es) = lent_on es"

fun sent_bytes :: "fe_event list \<Rightarrow> byte list" where
  "sent_bytes [] = []"
| "sent_bytes (Sent b # es) = b # sent_bytes es"
| "sent_bytes (e # es) = sent_bytes es"

text \<open>
  One read of the main channel going through all three: the acknowledgements and the answers that
  are written. The states of the tasks are the automata of the first two and \<open>rsp_buf\<close>.
\<close>

record pipe_state =
  pp_wire :: wire_state
  pp_buf :: "byte list"
  pp_frontend :: frontend_cs
  pp_rsp :: "byte list"

definition pipe_read ::
  "config \<Rightarrow> pipe_state \<Rightarrow> byte list \<Rightarrow> (byte list \<times> byte list list \<times> pipe_state) outcome" where
  "pipe_read cfg st chunk =
     (case wire_read (pp_wire st) (pp_buf st) chunk of (w, buf, lends) \<Rightarrow>
      case fsm_frontend_foreign (pp_frontend st) (map borrowed_bytes lends) of (fe, es) \<Rightarrow>
        rbind (autoresponder_run cfg (pp_rsp st) (lent_on es)) (\<lambda>(answers, rsp).
          Inr (sent_bytes es, answers, \<lparr>pp_wire = w, pp_buf = buf, pp_frontend = fe, pp_rsp = rsp\<rparr>)))"

fun pipe_reads ::
  "config \<Rightarrow> pipe_state \<Rightarrow> byte list list \<Rightarrow> (byte list \<times> byte list list \<times> pipe_state) outcome" where
  "pipe_reads cfg st [] = Inr ([], [], st)"
| "pipe_reads cfg st (c # cs) =
     rbind (pipe_read cfg st c) (\<lambda>(acks, answers, st1).
     rbind (pipe_reads cfg st1 cs) (\<lambda>(acks', answers', st2).
       Inr (acks @ acks', answers @ answers', st2)))"

definition pipe_start :: "byte list \<Rightarrow> byte list \<Rightarrow> pipe_state" where
  "pipe_start buf rsp =
     \<lparr>pp_wire = \<lparr>ws_cs = W_start, ws_lrc = 0, ws_start = 0\<rparr>, pp_buf = buf, pp_frontend = frontend_init, pp_rsp = rsp\<rparr>"

section \<open>Messages are ASCII\<close>

lemma clean_ascii: "clean w \<Longrightarrow> ascii w"
proof -
  have "unat b < 128" if "rl_a b \<or> b = FS \<or> b = US" for b
    using that by (auto simp: rl_a_def word_le_nat_alt wire_defs)
  then show "clean w \<Longrightarrow> ascii w" by (auto simp: clean_def ascii_def list_all_iff)
qed

lemma xor_below: "unat (a :: byte) < 128 \<Longrightarrow> unat b < 128 \<Longrightarrow> unat (a XOR b) < 128"
proof -
  assume "unat a < 128" "unat b < 128"
  then have "take_bit 7 (unat a) = unat a" "take_bit 7 (unat b) = unat b" by (simp_all add: take_bit_nat_eq_self)
  then have "unat (a XOR b) = take_bit 7 (unat a XOR unat b)"
    by (simp add: unsigned_xor_eq take_bit_xor)
  then show ?thesis using take_bit_nat_less_exp [of 7 "unat a XOR unat b"] by simp
qed

lemma lrc_ascii: "ascii w \<Longrightarrow> unat l < 128 \<Longrightarrow> unat (lrc_loop l w) < 128"
  by (induction w arbitrary: l) (auto simp: ascii_def xor_below)

section \<open>The first message is answered\<close>

lemma payload_first:
  assumes "msg_ok m"
  obtains b bs where "payload (msg_header m) (msg_ops m) = b # bs" "rl_h b"
proof -
  obtain b bs where "print_X (unat (hdr_token (msg_header m))) = b # bs"
    using print_nonempty(2) by (metis neq_Nil_conv)
  moreover have "list_all is_xdigit (print_X (unat (hdr_token (msg_header m))))" by simp
  ultimately show thesis using that by (simp add: payload_def FCOPY_def)
qed

lemma digit_no_input: "rl_h b \<Longrightarrow> \<not> fe_input b"
  by (auto simp: fe_input_def fe_defs is_xdigit_def is_digit_def)

lemma pipe_first:
  assumes "msg_ok m" "cfg_ok cfg" "answer_body cfg (msg_body m) = Some b" "length rsp = 1024"
  shows "\<exists>st. pipe_read cfg (pipe_start buf rsp) (wire_text m) =
    Inr ([ACK], [wire_text (answer m b)], st) \<and> pp_frontend st = FE_error"
proof -
  let ?p = "payload (msg_header m) (msg_ops m)"
  have cl: "clean ?p" using msg_ok_facts(4) [OF assms(1)] .
  then have p: "?p \<noteq> []" "ETX \<notin> set ?p" "unat (lrc_loop 0 (?p @ [ETX])) < 128"
    using clean_frame [OF cl] lrc_ascii [of "?p @ [ETX]" 0] clean_ascii [OF cl]
    by (simp_all add: ascii_def) (simp add: wire_defs)
  have chunk: "wire_text m = STX # ?p @ ETX # lrc_loop 0 (?p @ [ETX]) # []"
    by (simp add: wire_text_def frame_of_def)
  obtain w mem ls where w: "wire_read (wire_at W_start 0 0) buf (wire_text m) =
      (w, mem, (int (length (STX # ?p)), mem) # ls)" "take (length (STX # ?p)) mem = STX # ?p"
    using wire_first [OF p chunk, of 0 0 buf] by blast
  obtain c cs where c: "?p = c # cs" "rl_h c" using payload_first [OF assms(1)] by blast
  have bb: "borrowed_bytes (int (length (STX # ?p)), mem) = STX # c # cs"
    unfolding borrowed_bytes_def fst_conv snd_conv nat_int w(2) using c(1) by simp
  have fe: "fsm_frontend_foreign frontend_init (map borrowed_bytes ((int (length (STX # ?p)), mem) # ls)) =
      (FE_error, [Sent ACK, Lent (STX # ?p)])"
    unfolding list.map bb unfolding c(1) by (rule frontend_first_only [OF digit_no_input [OF c(2)]])
  obtain rsp' where "autoresponder_step cfg rsp (STX # ?p) = Inr (Some (wire_text (answer m b)), rsp')"
    using step_answers [OF assms] by blast
  then show ?thesis using w(1) fe by (simp add: pipe_read_def pipe_start_def)
qed

text \<open>Whatever comes after it is neither acknowledged nor answered.\<close>

lemma pipe_stuck:
  assumes "pp_frontend st = FE_error"
  shows "\<exists>st'. pipe_reads cfg st chunks = Inr ([], [], st') \<and> pp_frontend st' = FE_error"
  using assms
proof (induction chunks arbitrary: st)
  case (Cons c cs)
  obtain w buf ls where "wire_read (pp_wire st) (pp_buf st) c = (w, buf, ls)"
    using prod_cases3 by blast
  then have "pipe_read cfg st c = Inr ([], [], \<lparr>pp_wire = w, pp_buf = buf, pp_frontend = FE_error, pp_rsp = pp_rsp st\<rparr>)"
    using Cons.prems by (simp add: pipe_read_def frontend_stuck)
  then show ?case
    using Cons.IH [of "\<lparr>pp_wire = w, pp_buf = buf, pp_frontend = FE_error, pp_rsp = pp_rsp st\<rparr>"] by auto
qed simp

section \<open>The program as a whole\<close>

text \<open>
  C4. The three tasks together: after start-up the first well-formed request that comes in a read of its
  own is acknowledged and answered; everything read after it, however it is cut into reads, is
  neither acknowledged nor answered, because the frontend's automaton has no transition for the data
  behind STX and is never initialised again.
\<close>

theorem only_first_answered:
  assumes "msg_ok m" "cfg_ok cfg" "answer_body cfg (msg_body m) = Some b" "length rsp = 1024"
  shows "\<exists>st. pipe_reads cfg (pipe_start buf rsp) (wire_text m # chunks) = Inr ([ACK], [wire_text (answer m b)], st)"
proof -
  obtain st where st: "pipe_read cfg (pipe_start buf rsp) (wire_text m) = Inr ([ACK], [wire_text (answer m b)], st)"
    "pp_frontend st = FE_error"
    using pipe_first [OF assms] by blast
  then show ?thesis using pipe_stuck [OF st(2), of cfg chunks] by auto
qed

theorem only_first_answered_witness:
  "\<exists>st. pipe_reads shipped_config (pipe_start (zeros 1024) (zeros 1024))
     [wire_text (ping_msg 1), wire_text (ping_msg 2), wire_text payment_msg] =
     Inr ([ACK], [wire_text (answer (ping_msg 1) (T2 (cfg_info shipped_config)))], st)"
  using only_first_answered [OF ping_msg_ok [of 1] shipped_config_ok, of "T2 (cfg_info shipped_config)" "zeros 1024"
      "zeros 1024" "[wire_text (ping_msg 2), wire_text payment_msg]"]
  by (simp add: answer_body_def) (simp add: ping_msg_def)

end
