(* ===== verification/Context_Ring.thy ===== *)
theory Context_Ring
  imports Prelude
begin

text \<open>
  \<open>multitasking/contextring.c\<close>: the doubly linked ring of coroutines. The nodes live in an
  explicit heap, because \<open>insert\<close> and \<open>shrink\<close> relink neighbours that may be one and the same node.
  The locale \<open>round_robin\<close> is what the scheduler relies on; the heap implementation interprets it.
\<close>

section \<open>Nodes and heap\<close>

type_synonym addr = nat

record ring_node =
  nd_prev :: addr
  nd_next :: addr
  nd_ctx :: nat      \<comment> \<open>the coroutine, a \<open>coro_context\<close>\<close>
  nd_visited :: nat
  nd_name :: string

type_synonym ring_heap = "addr \<Rightarrow> ring_node option"

definition deref :: "ring_heap \<Rightarrow> addr \<Rightarrow> ring_node outcome" where
  "deref h a = (case h a of None \<Rightarrow> Inl Out_Of_Bounds_Read | Some n \<Rightarrow> Inr n)"

definition set_next :: "ring_heap \<Rightarrow> addr \<Rightarrow> addr \<Rightarrow> ring_heap outcome" where
  "set_next h a v = rbind (deref h a) (\<lambda>n. Inr (h(a \<mapsto> n\<lparr>nd_next := v\<rparr>)))"

definition set_prev :: "ring_heap \<Rightarrow> addr \<Rightarrow> addr \<Rightarrow> ring_heap outcome" where
  "set_prev h a v = rbind (deref h a) (\<lambda>n. Inr (h(a \<mapsto> n\<lparr>nd_prev := v\<rparr>)))"

section \<open>insert and shrink\<close>

text \<open>
  The cursor is \<open>None\<close> for a null pointer. \<open>new\<close> is what \<open>malloc\<close> returns; \<open>xmalloc\<close> aborts when
  it fails. The assignments are in the order of the code.
\<close>

definition insert_ctx ::
  "addr option \<Rightarrow> nat \<Rightarrow> string \<Rightarrow> ring_heap \<times> addr option \<Rightarrow> (ring_heap \<times> addr option) outcome" where
  "insert_ctx malloc ctx name = (\<lambda>(h, cursor).
     (case malloc of
        None \<Rightarrow> Inl Aborted
      | Some new \<Rightarrow>
          (case cursor of
             Some c \<Rightarrow>
               rbind (deref h c) (\<lambda>n.
               let h1 = h(new \<mapsto> \<lparr>nd_prev = c, nd_next = nd_next n, nd_ctx = ctx, nd_visited = 0, nd_name = name\<rparr>) in
               rbind (deref h1 c) (\<lambda>n1.
               rbind (set_prev h1 (nd_next n1) new) (\<lambda>h2.
               rbind (set_next h2 c new) (\<lambda>h3.
                 Inr (h3, Some new)))))
           | None \<Rightarrow>
               Inr (h(new \<mapsto> \<lparr>nd_prev = new, nd_next = new, nd_ctx = ctx, nd_visited = 0, nd_name = name\<rparr>), Some new))))"

definition shrink :: "ring_heap \<times> addr option \<Rightarrow> (ring_heap \<times> addr option) outcome" where
  "shrink = (\<lambda>(h, cursor).
     (case cursor of
        None \<Rightarrow> Inl Assert_Failed
      | Some c \<Rightarrow>
          rbind (deref h c) (\<lambda>n.
          if nd_next n = c then Inr (h, None)
          else
            rbind (set_next h (nd_prev n) (nd_next n)) (\<lambda>h1.
            rbind (deref h1 c) (\<lambda>n1.
            rbind (set_prev h1 (nd_next n1) (nd_prev n1)) (\<lambda>h2.
            rbind (deref h2 c) (\<lambda>n2.
              Inr (h2, Some (nd_next n2)))))))))"

text \<open>\<open>s_current ? s_current->next : NULL\<close>\<close>

definition advance :: "ring_heap \<times> addr option \<Rightarrow> (ring_heap \<times> addr option) outcome" where
  "advance = (\<lambda>(h, cursor).
     (case cursor of
        None \<Rightarrow> Inr (h, None)
      | Some c \<Rightarrow> rbind (deref h c) (\<lambda>n. Inr (h, Some (nd_next n)))))"

section \<open>The ring as a list\<close>

definition next_of :: "ring_heap \<Rightarrow> addr \<Rightarrow> addr option" where
  "next_of h a = map_option nd_next (h a)"

definition prev_of :: "ring_heap \<Rightarrow> addr \<Rightarrow> addr option" where
  "prev_of h a = map_option nd_prev (h a)"

text \<open>\<open>chain h xs\<close>: each node of \<open>xs\<close> is linked, both ways, with the one after it.\<close>

fun chain :: "ring_heap \<Rightarrow> addr list \<Rightarrow> bool" where
  "chain h (a # b # xs) \<longleftrightarrow> next_of h a = Some b \<and> prev_of h b = Some a \<and> chain h (b # xs)"
| "chain h _ \<longleftrightarrow> True"

definition ring :: "ring_heap \<times> addr option \<Rightarrow> addr list \<Rightarrow> bool" where
  "ring s xs \<longleftrightarrow>
     (case snd s of None \<Rightarrow> xs = [] | Some c \<Rightarrow> xs \<noteq> [] \<and> hd xs = c)
     \<and> distinct xs \<and> set xs \<subseteq> dom (fst s) \<and> (xs \<noteq> [] \<longrightarrow> chain (fst s) (xs @ [hd xs]))"

lemma links_upd [simp]:
  "next_of (h(p \<mapsto> n)) a = (if a = p then Some (nd_next n) else next_of h a)"
  "prev_of (h(p \<mapsto> n)) a = (if a = p then Some (nd_prev n) else prev_of h a)"
  by (simp_all add: next_of_def prev_of_def)

lemma chain_cong:
  assumes "chain h xs" "\<And>a. a \<in> set (butlast xs) \<Longrightarrow> next_of h' a = next_of h a"
    "\<And>b. b \<in> set (tl xs) \<Longrightarrow> prev_of h' b = prev_of h b"
  shows "chain h' xs"
  using assms
proof (induction h xs rule: chain.induct)
  case (1 h a b xs)
  have "chain h' (b # xs)"
    by (rule "1.IH") (use "1.prems" in \<open>auto split: if_splits dest: in_set_butlastD list.set_sel(2)\<close>)
  then show ?case using "1.prems" by (simp split: if_splits)
qed auto

lemma chain_snoc: "chain h (xs @ [a, b]) \<longleftrightarrow> chain h (xs @ [a]) \<and> next_of h a = Some b \<and> prev_of h b = Some a"
proof (induction xs)
  case (Cons x xs)
  then show ?case by (cases xs) auto
qed simp

text \<open>Rotating: a ring may be entered at any of its nodes.\<close>

lemma chain_rotate: "chain h (c # ys @ [c]) \<Longrightarrow> ys \<noteq> [] \<Longrightarrow> chain h (ys @ [c, hd ys])"
  using chain_snoc [of h ys c "hd ys"] by (cases ys) auto

lemma ring_node: "ring (h, Some c) xs \<Longrightarrow> \<exists>n ys. h c = Some n \<and> xs = c # ys \<and> c \<notin> set ys
    \<and> nd_next n = (case ys of [] \<Rightarrow> c | y # _ \<Rightarrow> y) \<and> nd_prev n = last (c # ys)"
proof -
  assume r: "ring (h, Some c) xs"
  then obtain ys where xs: "xs = c # ys" "c \<notin> set ys" "chain h (c # ys @ [c])" "c \<in> dom h"
    by (cases xs) (auto simp: ring_def)
  then obtain n where n: "h c = Some n" by auto
  have "nd_next n = (case ys of [] \<Rightarrow> c | y # _ \<Rightarrow> y)"
    using xs(3) n by (cases ys) (auto simp: next_of_def)
  moreover have "nd_prev n = last (c # ys)"
  proof (cases ys rule: rev_cases)
    case Nil
    then show ?thesis using xs(3) n by (simp add: prev_of_def)
  next
    case (snoc zs z)
    then have "chain h ((c # zs) @ [z, c])" using xs(3) by simp
    then show ?thesis using snoc n chain_snoc [of h "c # zs" z c] by (auto simp: prev_of_def)
  qed
  ultimately show ?thesis using xs n by blast
qed

section \<open>The operations on the list\<close>

lemma advance_ring:
  assumes "ring s (c # ys)"
  shows "\<exists>s'. advance s = Inr s' \<and> ring s' (ys @ [c]) \<and> fst s' = fst s"
proof -
  obtain h where s: "s = (h, Some c)" using assms by (cases s) (auto simp: ring_def split: option.splits)
  then obtain n where n: "h c = Some n" "nd_next n = (case ys of [] \<Rightarrow> c | y # _ \<Rightarrow> y)"
    using ring_node [of h c "c # ys"] assms by auto
  show ?thesis
  proof (cases ys)
    case Nil
    then show ?thesis using n s assms by (simp add: advance_def deref_def)
  next
    case (Cons y zs)
    then have "ring (h, Some y) (ys @ [c])"
      using assms s chain_rotate [of h c ys] by (auto simp: ring_def)
    then show ?thesis using n s Cons by (simp add: advance_def deref_def)
  qed
qed

lemma insert_ring:
  assumes "ring s xs" "fst s new = None"
  shows "\<exists>s' n. insert_ctx (Some new) ctx name s = Inr s' \<and> ring s' (if xs = [] then [new] else new # tl xs @ [hd xs])
    \<and> fst s' new = Some n \<and> nd_ctx n = ctx \<and> nd_name n = name
    \<and> (\<forall>a. a \<noteq> new \<longrightarrow> map_option nd_ctx (fst s' a) = map_option nd_ctx (fst s a))"
proof (cases "snd s")
  case None
  then show ?thesis using assms by (cases s) (auto simp: insert_ctx_def ring_def)
next
  case (Some c)
  then obtain h where s: "s = (h, Some c)" by (cases s) simp
  obtain n ys where n: "h c = Some n" "xs = c # ys" "c \<notin> set ys" "nd_next n = (case ys of [] \<Rightarrow> c | y # _ \<Rightarrow> y)"
    using ring_node assms(1) s by blast
  have new: "new \<notin> set xs" "new \<noteq> c" using assms s n(1) by (auto simp: ring_def)
  show ?thesis
  proof (cases ys)
    case Nil
    then show ?thesis using n new s assms
      by (simp add: insert_ctx_def deref_def set_prev_def set_next_def Let_def ring_def)
  next
    case (Cons y zs)
    from Cons assms s n obtain m where m: "h y = Some m" by (auto simp: ring_def)
    let ?h = "h(new \<mapsto> \<lparr>nd_prev = c, nd_next = y, nd_ctx = ctx, nd_visited = 0, nd_name = name\<rparr>,
        y \<mapsto> m\<lparr>nd_prev := new\<rparr>, c \<mapsto> n\<lparr>nd_next := new\<rparr>)"
    have ne: "y \<noteq> c" "y \<noteq> new" "c \<noteq> new" "new \<notin> set zs" "c \<notin> set zs" "y \<notin> set zs" "distinct zs"
      using new n Cons assms s by (auto simp: ring_def)
    have run: "insert_ctx (Some new) ctx name s = Inr (?h, Some new)"
      using n m s Cons ne by (simp add: insert_ctx_def deref_def set_prev_def set_next_def Let_def)
    have old: "chain h (y # zs @ [c])" using assms s n Cons by (simp add: ring_def)
    have "next_of h y = Some (nd_next m)" "prev_of h c = Some (nd_prev n)"
      using m n by (simp_all add: next_of_def prev_of_def)
    then have "chain ?h (y # zs @ [c])"
      by (intro chain_cong [OF old]) (use ne in \<open>auto simp: butlast_append split: if_splits\<close>)
    then have "chain ?h ((new # y # zs) @ [c, new])"
      using ne m n chain_snoc [of ?h "new # y # zs" c new] by (simp add: next_of_def prev_of_def)
    then have "ring (?h, Some new) (new # ys @ [c])"
      using ne Cons assms s n by (auto simp: ring_def)
    then show ?thesis using run n s ne Cons m by auto
  qed
qed

lemma shrink_ring:
  assumes "ring s (c # ys)"
  shows "\<exists>s'. shrink s = Inr s' \<and> ring s' ys \<and> (\<forall>a. map_option nd_ctx (fst s' a) = map_option nd_ctx (fst s a))"
proof -
  obtain h where s: "s = (h, Some c)" using assms by (cases s) (auto simp: ring_def split: option.splits)
  then obtain n where n: "h c = Some n" "c \<notin> set ys" "nd_next n = (case ys of [] \<Rightarrow> c | y # _ \<Rightarrow> y)"
    "nd_prev n = last (c # ys)"
    using ring_node [of h c "c # ys"] assms by auto
  show ?thesis
  proof (cases ys)
    case Nil
    then show ?thesis using n s by (auto simp: shrink_def deref_def ring_def)
  next
    case (Cons y zs)
    let ?l = "last ys"
    have inh: "set ys \<subseteq> dom h" "y \<in> set ys" "?l \<in> set ys" "distinct ys" "chain h (ys @ [c])"
      using assms s Cons by (auto simp: ring_def)
    then obtain ml my where m: "h ?l = Some ml" "h y = Some my" by blast
    have ne: "y \<noteq> c" "?l \<noteq> c" using n inh by auto
    let ?h1 = "h(?l \<mapsto> ml\<lparr>nd_next := y\<rparr>)"
    obtain k where k: "?h1 y = Some k" using m by (cases "y = ?l") auto
    let ?h = "?h1(y \<mapsto> k\<lparr>nd_prev := ?l\<rparr>)"
    have prev: "nd_prev n = ?l" "nd_next n = y" using n Cons by simp_all
    have run: "shrink s = Inr (?h, Some y)"
      using n(1) s ne m k by (auto simp: shrink_def deref_def set_next_def set_prev_def prev split: if_splits)
    obtain ws where ws: "ys = ws @ [?l]" using Cons by (metis append_butlast_last_id list.distinct(1))
    have "chain h (ws @ [?l, c])" using inh(5) ws by (metis append.assoc append_Cons append_Nil)
    then have old: "chain h (ws @ [?l])" by (simp add: chain_snoc)
    have dis: "distinct (ws @ [?l])" using inh(4) ws by metis
    have nk: "nd_next k = (if y = ?l then y else nd_next my)" "nd_prev my = nd_prev my"
      using k m by (auto split: if_splits)
    have "next_of ?h a = next_of h a" if "a \<in> set ws" for a
      using that dis nk m by (auto simp: next_of_def split: if_splits)
    moreover have "prev_of ?h b = prev_of h b" if "b \<in> set (tl (ws @ [?l]))" for b
    proof -
      have "tl (ws @ [?l]) = zs" using ws Cons by (metis list.sel(3))
      then have "b \<noteq> y" using that inh(4) Cons by auto
      then show ?thesis using m by (auto simp: prev_of_def)
    qed
    ultimately have "chain ?h (ws @ [?l])" by (intro chain_cong [OF old]) auto
    moreover have "next_of ?h ?l = Some y" "prev_of ?h y = Some ?l"
      using nk k by (auto simp: next_of_def prev_of_def)
    ultimately have "chain ?h (ws @ [?l, y])" by (simp add: chain_snoc)
    then have "chain ?h (ys @ [hd ys])" using ws Cons by (metis append.assoc append_Cons append_Nil list.sel(1))
    moreover have "set ys \<subseteq> dom ?h" using inh(1) by auto
    ultimately have "ring (?h, Some y) ys" using Cons inh(4) by (auto simp: ring_def)
    moreover have "\<forall>a. map_option nd_ctx (?h a) = map_option nd_ctx (h a)"
      using m k by (auto split: if_splits)
    ultimately show ?thesis using run s by auto
  qed
qed

section \<open>The scheduler's view\<close>

text \<open>
  What \<open>sus_runall\<close> needs of the ring: \<open>holds s xs\<close> says that \<open>s\<close> is a ring of the tasks \<open>xs\<close> in
  the order in which they will run, the current one first.
\<close>

locale round_robin =
  fixes holds :: "'s \<Rightarrow> 't list \<Rightarrow> bool"
    and add :: "'t \<Rightarrow> 's \<Rightarrow> 's outcome"
    and step :: "'s \<Rightarrow> 's outcome"
    and drop_current :: "'s \<Rightarrow> 's outcome"
    and fresh :: "'t \<Rightarrow> 's \<Rightarrow> bool"
    and key :: "'t \<Rightarrow> 'k"
  assumes add_empty: "holds s [] \<Longrightarrow> fresh t s \<Longrightarrow> \<exists>s'. add t s = Inr s' \<and> holds s' [t]"
    and add_more: "holds s (c # ys) \<Longrightarrow> fresh t s \<Longrightarrow> \<exists>s'. add t s = Inr s' \<and> holds s' (t # ys @ [c])"
    and add_fresh: "holds s xs \<Longrightarrow> fresh t s \<Longrightarrow> fresh u s \<Longrightarrow> key u \<noteq> key t \<Longrightarrow> add t s = Inr s' \<Longrightarrow> fresh u s'"
    and step_next: "holds s (c # ys) \<Longrightarrow> \<exists>s'. step s = Inr s' \<and> holds s' (ys @ [c])"
    and drop_next: "holds s (c # ys) \<Longrightarrow> \<exists>s'. drop_current s = Inr s' \<and> holds s' ys"
begin

fun add_all :: "'t list \<Rightarrow> 's \<Rightarrow> 's outcome" where
  "add_all [] s = Inr s"
| "add_all (t # ts) s = rbind (add t s) (add_all ts)"

fun steps :: "nat \<Rightarrow> 's \<Rightarrow> 's outcome" where
  "steps 0 s = Inr s"
| "steps (Suc n) s = rbind (step s) (steps n)"

lemma add_all_more:
  assumes "holds s (c # ys)" "distinct (map key ts)" "\<forall>t \<in> set ts. fresh t s" "ts \<noteq> []"
  shows "\<exists>s'. add_all ts s = Inr s' \<and> holds s' (last ts # ys @ c # butlast ts)"
  using assms
proof (induction ts arbitrary: s c ys)
  case (Cons t ts)
  obtain s1 where s1: "add t s = Inr s1" "holds s1 (t # ys @ [c])"
    using add_more [OF Cons.prems(1)] Cons.prems(3) by auto
  show ?case
  proof (cases ts)
    case Nil
    then show ?thesis using s1 by simp
  next
    case (Cons u us)
    have "key v \<noteq> key t" if "v \<in> set ts" for v using Cons.prems(2) that by simp (metis image_eqI)
    then have "\<forall>v \<in> set ts. fresh v s1"
      using add_fresh [OF Cons.prems(1) _ _ _ s1(1)] Cons.prems(3) by simp
    then obtain s' where "add_all ts s1 = Inr s'" "holds s' (last ts # (ys @ [c]) @ t # butlast ts)"
      using Cons.IH [OF s1(2)] Cons.prems(2) Cons by auto
    then show ?thesis using s1 Cons by simp
  qed
qed simp

text \<open>After all tasks were added the last one is current and the others follow in order.\<close>

lemma add_all_order:
  assumes "holds s []" "distinct (map key ts)" "\<forall>t \<in> set ts. fresh t s" "ts \<noteq> []"
  shows "\<exists>s'. add_all ts s = Inr s' \<and> holds s' (last ts # butlast ts)"
proof (cases ts)
  case (Cons t us)
  obtain s1 where s1: "add t s = Inr s1" "holds s1 [t]"
    using add_empty [OF assms(1)] assms(3) Cons by auto
  show ?thesis
  proof (cases us)
    case Nil
    then show ?thesis using s1 Cons by simp
  next
    case (Cons u vs)
    have "key v \<noteq> key t" if "v \<in> set us" for v using assms(2) that \<open>ts = t # us\<close> by simp (metis image_eqI)
    then have "\<forall>v \<in> set us. fresh v s1"
      using add_fresh [OF assms(1) _ _ _ s1(1)] assms(3) \<open>ts = t # us\<close> by simp
    then show ?thesis
      using add_all_more [OF s1(2), of us] assms(2) s1 \<open>ts = t # us\<close> Cons by auto
  qed
qed (use assms in simp)

lemma steps_rotate: "holds s xs \<Longrightarrow> n \<le> length xs \<Longrightarrow> \<exists>s'. steps n s = Inr s' \<and> holds s' (drop n xs @ take n xs)"
proof (induction n arbitrary: s xs)
  case (Suc n)
  then obtain c ys where xs: "xs = c # ys" by (cases xs) auto
  obtain s1 where s1: "step s = Inr s1" "holds s1 (ys @ [c])" using step_next Suc.prems(1) xs by blast
  obtain s' where "steps n s1 = Inr s'" "holds s' (drop n (ys @ [c]) @ take n (ys @ [c]))"
    using Suc.IH [OF s1(2)] Suc.prems(2) xs by auto
  then show ?case using s1 xs Suc.prems(2) by simp
qed simp

text \<open>A full turn comes back to where it began.\<close>

lemma full_turn: "holds s xs \<Longrightarrow> \<exists>s'. steps (length xs) s = Inr s' \<and> holds s' xs"
  using steps_rotate [of s xs "length xs"] by simp

end

text \<open>A task of the heap implementation: where \<open>malloc\<close> puts its node, its coroutine and its name.\<close>

record ring_task =
  tk_addr :: addr
  tk_ctx :: nat
  tk_name :: string

definition add_task :: "ring_task \<Rightarrow> ring_heap \<times> addr option \<Rightarrow> (ring_heap \<times> addr option) outcome" where
  "add_task t = insert_ctx (Some (tk_addr t)) (tk_ctx t) (tk_name t)"

definition node_is :: "ring_heap \<Rightarrow> ring_task \<Rightarrow> bool" where
  "node_is h t \<longleftrightarrow> map_option nd_ctx (h (tk_addr t)) = Some (tk_ctx t)"

definition ring_tasks :: "ring_heap \<times> addr option \<Rightarrow> ring_task list \<Rightarrow> bool" where
  "ring_tasks s ts \<longleftrightarrow> ring s (map tk_addr ts) \<and> list_all (node_is (fst s)) ts"

definition fresh_task :: "ring_task \<Rightarrow> ring_heap \<times> addr option \<Rightarrow> bool" where
  "fresh_task t s \<longleftrightarrow> fst s (tk_addr t) = None"

lemma node_is_cong: "(\<forall>a. a \<noteq> b \<longrightarrow> map_option nd_ctx (h' a) = map_option nd_ctx (h a)) \<Longrightarrow>
    tk_addr t \<noteq> b \<Longrightarrow> node_is h' t = node_is h t"
  by (simp add: node_is_def)

lemma ring_tasks_dom: "ring_tasks s ts \<Longrightarrow> t \<in> set ts \<Longrightarrow> fst s (tk_addr t) \<noteq> None"
  by (auto simp: ring_tasks_def ring_def)

lemma add_task_ring:
  assumes "ring_tasks s ts" "fresh_task t s"
  shows "\<exists>s'. add_task t s = Inr s' \<and> ring_tasks s' (if ts = [] then [t] else t # tl ts @ [hd ts])
    \<and> (\<forall>a. a \<noteq> tk_addr t \<longrightarrow> map_option nd_ctx (fst s' a) = map_option nd_ctx (fst s a))"
proof -
  obtain s' n where s': "add_task t s = Inr s'"
    "ring s' (if map tk_addr ts = [] then [tk_addr t] else tk_addr t # tl (map tk_addr ts) @ [hd (map tk_addr ts)])"
    "fst s' (tk_addr t) = Some n" "nd_ctx n = tk_ctx t"
    "\<forall>a. a \<noteq> tk_addr t \<longrightarrow> map_option nd_ctx (fst s' a) = map_option nd_ctx (fst s a)"
    using insert_ring [of s "map tk_addr ts" "tk_addr t" "tk_ctx t" "tk_name t"] assms
    unfolding add_task_def ring_tasks_def fresh_task_def by blast
  have "tk_addr u \<noteq> tk_addr t" if "u \<in> set ts" for u
    using ring_tasks_dom [OF assms(1) that] assms(2) by (auto simp: fresh_task_def)
  then have "list_all (node_is (fst s')) ts"
    using assms(1) node_is_cong [OF s'(5)] by (simp add: ring_tasks_def list_all_iff)
  then have "list_all (node_is (fst s')) (if ts = [] then [t] else t # tl ts @ [hd ts])"
    using s'(3,4) by (cases ts) (simp_all add: node_is_def)
  then show ?thesis using s' by (cases ts) (auto simp: ring_tasks_def)
qed

lemma node_is_same: "(\<forall>a. map_option nd_ctx (h' a) = map_option nd_ctx (h a)) \<Longrightarrow> node_is h' = node_is h"
  by (auto simp: node_is_def fun_eq_iff)

interpretation rr: round_robin ring_tasks add_task advance shrink fresh_task tk_addr
proof
  fix s :: "ring_heap \<times> addr option" and t u c and ys xs :: "ring_task list"
  show "ring_tasks s [] \<Longrightarrow> fresh_task t s \<Longrightarrow> \<exists>s'. add_task t s = Inr s' \<and> ring_tasks s' [t]"
    using add_task_ring [of s "[]" t] by auto
  show "ring_tasks s (c # ys) \<Longrightarrow> fresh_task t s \<Longrightarrow> \<exists>s'. add_task t s = Inr s' \<and> ring_tasks s' (t # ys @ [c])"
    using add_task_ring [of s "c # ys" t] by auto
  show "ring_tasks s (c # ys) \<Longrightarrow> \<exists>s'. advance s = Inr s' \<and> ring_tasks s' (ys @ [c])"
    using advance_ring [of s "tk_addr c" "map tk_addr ys"] by (auto simp: ring_tasks_def)
  show "ring_tasks s (c # ys) \<Longrightarrow> \<exists>s'. shrink s = Inr s' \<and> ring_tasks s' ys"
    using shrink_ring [of s "tk_addr c" "map tk_addr ys"] by (auto simp: ring_tasks_def dest: node_is_same)
next
  fix s s' :: "ring_heap \<times> addr option" and t u and xs :: "ring_task list"
  assume a: "ring_tasks s xs" "fresh_task t s" "fresh_task u s" "tk_addr u \<noteq> tk_addr t" "add_task t s = Inr s'"
  then obtain s'' where "add_task t s = Inr s''"
    "\<forall>a. a \<noteq> tk_addr t \<longrightarrow> map_option nd_ctx (fst s'' a) = map_option nd_ctx (fst s a)"
    using add_task_ring [of s xs t] by blast
  then show "fresh_task u s'" using a(3-5) by (simp add: fresh_task_def) (metis map_option_is_None)
qed

section \<open>The ring implements a queue\<close>

definition two_nodes :: ring_heap where
  "two_nodes = [1 \<mapsto> \<lparr>nd_prev = 2, nd_next = 2, nd_ctx = 10, nd_visited = 0, nd_name = ''a''\<rparr>,
     2 \<mapsto> \<lparr>nd_prev = 1, nd_next = 1, nd_ctx = 20, nd_visited = 0, nd_name = ''b''\<rparr>]"

lemma two_nodes_ring: "ring (two_nodes, Some 1) [1, 2]"
  by (simp add: ring_def two_nodes_def next_of_def prev_of_def)

text \<open>
  C11. On a well-linked ring of any length, one and two nodes included, the three operations do what they do to
  the list of its nodes, the current one first: \<open>advance\<close> rotates it, \<open>shrink\<close> drops the head, \<open>insert\<close>
  makes the new node current and the old one last; all links stay consistent, in both directions,
  and no node loses its coroutine.
\<close>

theorem ring_refines_list:
  assumes "ring s (c # ys)" "fst s new = None"
  shows "(\<exists>s'. advance s = Inr s' \<and> ring s' (ys @ [c]) \<and> fst s' = fst s)
    \<and> (\<exists>s'. shrink s = Inr s' \<and> ring s' ys \<and> (\<forall>a. map_option nd_ctx (fst s' a) = map_option nd_ctx (fst s a)))
    \<and> (\<exists>s'. insert_ctx (Some new) ctx name s = Inr s' \<and> ring s' (new # ys @ [c])
         \<and> map_option nd_ctx (fst s' new) = Some ctx
         \<and> (\<forall>a. a \<noteq> new \<longrightarrow> map_option nd_ctx (fst s' a) = map_option nd_ctx (fst s a)))"
proof -
  obtain s' n where "insert_ctx (Some new) ctx name s = Inr s'" "ring s' (new # ys @ [c])" "fst s' new = Some n"
    "nd_ctx n = ctx" "\<forall>a. a \<noteq> new \<longrightarrow> map_option nd_ctx (fst s' a) = map_option nd_ctx (fst s a)"
    using insert_ring [OF assms, of ctx name] by auto
  then show ?thesis using advance_ring [OF assms(1)] shrink_ring [OF assms(1)] by auto
qed

theorem ring_refines_list_witness:
  "\<exists>s'. insert_ctx (Some 3) 30 ''c'' (two_nodes, Some 1) = Inr s' \<and> ring s' [3, 2, 1]"
proof -
  have "fst (two_nodes, Some 1) 3 = None" by (simp add: two_nodes_def)
  from ring_refines_list [OF two_nodes_ring this] show ?thesis by fastforce
qed

end
