(* ===== verification/Eventloop.thy ===== *)
theory Eventloop
  imports Prelude
begin

text \<open>
  \<open>multitasking/eventloop.c\<close>: how long the I/O loop waits. \<open>select\<close> and the clock are the kernel's;
  they are arguments of the definitions.
\<close>

section \<open>Time values\<close>

record timeval =
  tv_sec :: int
  tv_usec :: int

definition usecs :: "timeval \<Rightarrow> int" where
  "usecs t = tv_sec t * 1000000 + tv_usec t"

definition tv_normal :: "timeval \<Rightarrow> bool" where
  "tv_normal t \<longleftrightarrow> 0 \<le> tv_usec t \<and> tv_usec t < 1000000"

text \<open>The macros of \<open>sys/time.h\<close>.\<close>

definition timeradd :: "timeval \<Rightarrow> timeval \<Rightarrow> timeval" where
  "timeradd a b =
     (let s = tv_sec a + tv_sec b; u = tv_usec a + tv_usec b in
      if u \<ge> 1000000 then \<lparr>tv_sec = s + 1, tv_usec = u - 1000000\<rparr> else \<lparr>tv_sec = s, tv_usec = u\<rparr>)"

definition timersub :: "timeval \<Rightarrow> timeval \<Rightarrow> timeval" where
  "timersub a b =
     (let s = tv_sec a - tv_sec b; u = tv_usec a - tv_usec b in
      if u < 0 then \<lparr>tv_sec = s - 1, tv_usec = u + 1000000\<rparr> else \<lparr>tv_sec = s, tv_usec = u\<rparr>)"

definition timer_ge :: "timeval \<Rightarrow> timeval \<Rightarrow> bool" where
  "timer_ge a b \<longleftrightarrow> (if tv_sec a = tv_sec b then tv_usec a \<ge> tv_usec b else tv_sec a \<ge> tv_sec b)"

lemma usecs_add: "usecs (timeradd a b) = usecs a + usecs b"
  by (simp add: usecs_def timeradd_def Let_def algebra_simps)

lemma usecs_sub: "usecs (timersub a b) = usecs a - usecs b"
  by (simp add: usecs_def timersub_def Let_def algebra_simps)

lemma normal_add: "tv_normal a \<Longrightarrow> tv_normal b \<Longrightarrow> tv_normal (timeradd a b)"
  by (auto simp: tv_normal_def timeradd_def Let_def)

lemma normal_sub: "tv_normal a \<Longrightarrow> tv_normal b \<Longrightarrow> tv_normal (timersub a b)"
  by (auto simp: tv_normal_def timersub_def Let_def)

lemma timer_ge_usecs: "tv_normal a \<Longrightarrow> tv_normal b \<Longrightarrow> timer_ge a b \<longleftrightarrow> usecs b \<le> usecs a"
  by (auto simp: tv_normal_def timer_ge_def usecs_def)

section \<open>Waiting\<close>

text \<open>
  The array \<open>set[3]\<close> of descriptor sets, indexed by the enumeration \<open>ioset\<close> of
  \<open>suspendables.c\<close>, and the deadline.
\<close>

datatype ioset = IOSET_READ | IOSET_WRITE | IOSET_OOB

type_synonym fd_sets = "ioset \<Rightarrow> nat set"

record io_params =
  iop_set :: fd_sets
  iop_maxfd :: nat
  iop_deadline :: timeval

text \<open>
  \<open>select\<close> gets the descriptors below the bound and the time to wait, \<open>None\<close> for a null pointer; it
  returns the number of ready ones and the ready sets. -1 ends the process (\<open>xselect\<close>).
\<close>

type_synonym select_call = "nat \<Rightarrow> fd_sets \<Rightarrow> timeval option \<Rightarrow> int \<times> fd_sets"

definition iselect :: "select_call \<Rightarrow> io_params \<Rightarrow> timeval option \<Rightarrow> (int \<times> io_params) outcome" where
  "iselect sel iop d =
     (case sel (iop_maxfd iop) (iop_set iop) d of (r, sets) \<Rightarrow>
        if r = - 1 then Inl Exited else Inr (r, iop\<lparr>iop_set := sets\<rparr>))"

definition io_wait_indefinitely :: "select_call \<Rightarrow> io_params \<Rightarrow> (int \<times> io_params) outcome" where
  "io_wait_indefinitely sel iop = iselect sel iop None"

definition io_nowait :: "select_call \<Rightarrow> io_params \<Rightarrow> (int \<times> io_params) outcome" where
  "io_nowait sel iop = iselect sel iop (Some \<lparr>tv_sec = 0, tv_usec = 0\<rparr>)"

text \<open>\<open>now\<close> is what \<open>gettimeofday\<close> answers. 0 stands for a timeout, with \<open>errno\<close> set to \<open>ETIME\<close>.\<close>

definition io_wait_timeout :: "select_call \<Rightarrow> timeval \<Rightarrow> io_params \<Rightarrow> (int \<times> io_params) outcome" where
  "io_wait_timeout sel now iop =
     (if timer_ge now (iop_deadline iop) then Inr (0, iop)
      else rbind (iselect sel iop (Some (timersub (iop_deadline iop) now))) (\<lambda>(l, iop').
        if l = 0 then Inr (0, iop') else Inr (l, iop')))"

datatype io_wait_f = Wait_Indefinitely | Wait_Timeout | No_Wait

definition get_io_wait :: "int \<Rightarrow> io_wait_f" where
  "get_io_wait timeout =
     (if timeout < 0 then Wait_Indefinitely else if timeout > 0 then Wait_Timeout else No_Wait)"

definition run_io_wait ::
  "io_wait_f \<Rightarrow> select_call \<Rightarrow> timeval \<Rightarrow> io_params \<Rightarrow> (int \<times> io_params) outcome" where
  "run_io_wait w sel now iop =
     (case w of
        Wait_Indefinitely \<Rightarrow> io_wait_indefinitely sel iop
      | Wait_Timeout \<Rightarrow> io_wait_timeout sel now iop
      | No_Wait \<Rightarrow> io_nowait sel iop)"

definition comp_deadline :: "timeval \<Rightarrow> int \<Rightarrow> timeval" where
  "comp_deadline now relative =
     (let tmp = \<lparr>tv_sec = relative, tv_usec = 0\<rparr> in
      if relative > 0 then timeradd now tmp else tmp)"

section \<open>The deadline is kept\<close>

text \<open>
  Started at \<open>t0\<close> with a positive timeout, a wait at \<open>now\<close> asks \<open>select\<close> for exactly the time that is
  left, as a normal and positive time value, and returns without asking once none is left.
\<close>

lemma wait_time_left:
  assumes "tv_normal t0" "tv_normal now" "0 < timeout" "iop_deadline iop = comp_deadline t0 timeout"
  shows "if usecs t0 + timeout * 1000000 \<le> usecs now
    then io_wait_timeout sel now iop = Inr (0, iop)
    else \<exists>d. io_wait_timeout sel now iop = iselect sel iop (Some d) \<and> tv_normal d \<and> 0 < usecs d
      \<and> usecs now + usecs d = usecs t0 + timeout * 1000000"
proof -
  let ?dl = "comp_deadline t0 timeout"
  have n: "tv_normal ?dl" and u: "usecs ?dl = usecs t0 + timeout * 1000000"
    using assms normal_add [of t0 "\<lparr>tv_sec = timeout, tv_usec = 0\<rparr>"]
      usecs_add [of t0 "\<lparr>tv_sec = timeout, tv_usec = 0\<rparr>"]
    by (simp_all add: comp_deadline_def Let_def tv_normal_def) (simp add: usecs_def)
  have id: "(\<lambda>(l, iop'). if l = 0 then Inr (0, iop') else Inr (l, iop')) = (Inr :: int \<times> io_params \<Rightarrow> _)"
    by auto
  show ?thesis
  proof (cases "timer_ge now ?dl")
    case True
    then show ?thesis using timer_ge_usecs [OF assms(2) n] u assms(4) by (simp add: io_wait_timeout_def)
  next
    case False
    then have lt: "usecs now < usecs ?dl" using timer_ge_usecs [OF assms(2) n] by simp
    have "io_wait_timeout sel now iop = iselect sel iop (Some (timersub ?dl now))"
      using False assms(4) by (simp add: io_wait_timeout_def id)
    then show ?thesis
      using lt u normal_sub [OF n assms(2)] usecs_sub [of ?dl now] by auto
  qed
qed

text \<open>
  C33. With a positive timeout the I/O loop keeps one deadline over all its waits: a wait at any later moment asks
  \<open>select\<close> for exactly the microseconds left until it, never for a negative or unnormalised time, and
  once the deadline has passed it reports a timeout without asking at all.
\<close>

theorem deadline_kept:
  assumes "tv_normal t0" "tv_normal now" "0 < timeout" "iop_deadline iop = comp_deadline t0 timeout"
  shows "run_io_wait (get_io_wait timeout) sel now iop = io_wait_timeout sel now iop
    \<and> (if usecs t0 + timeout * 1000000 \<le> usecs now
       then io_wait_timeout sel now iop = Inr (0, iop)
       else \<exists>d. io_wait_timeout sel now iop = iselect sel iop (Some d) \<and> tv_normal d \<and> 0 < usecs d
         \<and> usecs now + usecs d = usecs t0 + timeout * 1000000)"
  using wait_time_left [OF assms, of sel] assms(3) by (simp add: get_io_wait_def run_io_wait_def)

theorem deadline_witness:
  "\<exists>d. io_wait_timeout (\<lambda>_ s _. (1, s)) \<lparr>tv_sec = 103, tv_usec = 900000\<rparr>
       \<lparr>iop_set = (\<lambda>_. {}), iop_maxfd = 10, iop_deadline = comp_deadline \<lparr>tv_sec = 100, tv_usec = 200000\<rparr> 5\<rparr> =
     iselect (\<lambda>_ s _. (1, s))
       \<lparr>iop_set = (\<lambda>_. {}), iop_maxfd = 10, iop_deadline = comp_deadline \<lparr>tv_sec = 100, tv_usec = 200000\<rparr> 5\<rparr> (Some d)
     \<and> usecs d = 1300000"
proof -
  let ?iop = "\<lparr>iop_set = (\<lambda>_. {}), iop_maxfd = 10, iop_deadline = comp_deadline \<lparr>tv_sec = 100, tv_usec = 200000\<rparr> 5\<rparr>"
  have "tv_normal \<lparr>tv_sec = 100, tv_usec = 200000\<rparr>" "tv_normal \<lparr>tv_sec = 103, tv_usec = 900000\<rparr>" "0 < (5::int)"
    "iop_deadline ?iop = comp_deadline \<lparr>tv_sec = 100, tv_usec = 200000\<rparr> 5"
    by (simp_all add: tv_normal_def)
  from deadline_kept [OF this, of "\<lambda>_ s _. (1, s)"] show ?thesis by (auto simp: usecs_def)
qed

end
