(* ===== verification/Suspendables.thy ===== *)
theory Suspendables
  imports Context_Ring Eventloop Numerals
begin

text \<open>
  \<open>multitasking/suspendables.c\<close>: cooperative tasks that wait for each other at numbered slots and
  for the kernel at file descriptors. Switching stacks (\<open>coro_transfer\<close>) belongs to a submodule;
  here a function that suspends ends with \<open>Blocked\<close>, and a second function continues it.
\<close>

section \<open>Slots\<close>

text \<open>\<open>'p\<close> is the type of the pointers that are lent.\<close>

record 'p iowork =
  io_size :: nat
  io_data :: "'p option"
  io_borrowed :: bool
  io_disabled :: bool

definition empty_iowork :: "'p iowork" where
  "empty_iowork = \<lparr>io_size = 0, io_data = None, io_borrowed = False, io_disabled = False\<rparr>"

text \<open>The first part of \<open>sus_lend\<close>, up to its loop. The whole structure is assigned.\<close>

definition slot_lend :: "nat \<Rightarrow> 'p \<Rightarrow> 'p iowork \<Rightarrow> 'p iowork outcome" where
  "slot_lend sz data w =
     c_assert (\<not> io_borrowed w) (c_assert (io_data w = None) (c_assert (io_size w = 0)
       (Inr (empty_iowork\<lparr>io_data := Some data, io_size := sz\<rparr>))))"

text \<open>The loop of \<open>sus_lend\<close>: \<open>True\<close> when it is over.\<close>

definition slot_lend_over :: "'p iowork \<Rightarrow> bool outcome" where
  "slot_lend_over w =
     (if io_data w \<noteq> None then Inr False else c_assert (io_size w = 0) (Inr True))"

datatype 'p borrow_result = Borrowed nat 'p | Gone | Nothing_Yet

text \<open>The loop of \<open>sus_borrow\<close>, entered first or after a suspension.\<close>

definition slot_borrow_loop :: "'p iowork \<Rightarrow> 'p borrow_result \<times> 'p iowork" where
  "slot_borrow_loop w =
     (case io_data w of
        None \<Rightarrow> (if io_disabled w then Gone else Nothing_Yet, w)
      | Some p \<Rightarrow> (Borrowed (io_size w) p, w\<lparr>io_borrowed := True\<rparr>))"

definition slot_borrow :: "'p iowork \<Rightarrow> ('p borrow_result \<times> 'p iowork) outcome" where
  "slot_borrow w =
     c_assert (\<not> io_borrowed w) (if io_disabled w then Inr (Gone, w) else Inr (slot_borrow_loop w))"

definition slot_return :: "nat \<Rightarrow> 'p \<Rightarrow> 'p iowork \<Rightarrow> 'p iowork outcome" where
  "slot_return sz data w =
     c_assert (io_borrowed w) (c_assert (io_data w \<noteq> None) (c_assert (io_data w = Some data)
       (c_assert (io_size w = sz) (Inr empty_iowork))))"

definition slot_disable :: "'p iowork \<Rightarrow> 'p iowork" where
  "slot_disable w = w\<lparr>io_disabled := True\<rparr>"

section \<open>The contract of a slot\<close>

datatype 'p channel_state = Idle | Offered nat 'p | Taken nat 'p

text \<open>
  What a lender and a borrower rely on: one thing at a time changes hands, the borrower sees what
  was lent, and the lender goes on only after it was given back.
\<close>

locale handover =
  fixes lend :: "nat \<Rightarrow> 'p \<Rightarrow> 's \<Rightarrow> 's outcome"
    and over :: "'s \<Rightarrow> bool outcome"
    and borrow :: "'s \<Rightarrow> ('p borrow_result \<times> 's) outcome"
    and give_back :: "nat \<Rightarrow> 'p \<Rightarrow> 's \<Rightarrow> 's outcome"
    and chan :: "'s \<Rightarrow> 'p channel_state"
    and inv :: "'s \<Rightarrow> bool"
  assumes lend_idle: "inv s \<Longrightarrow> chan s = Idle \<Longrightarrow> \<exists>s'. lend n p s = Inr s' \<and> inv s' \<and> chan s' = Offered n p"
    and lend_busy: "chan s \<noteq> Idle \<Longrightarrow> lend n p s = Inl Assert_Failed"
    and over_idle: "inv s \<Longrightarrow> over s = Inr (chan s = Idle)"
    and borrow_offered: "inv s \<Longrightarrow> chan s = Offered n p \<Longrightarrow>
      (\<exists>s'. borrow s = Inr (Borrowed n p, s') \<and> inv s' \<and> chan s' = Taken n p) \<or> borrow s = Inr (Gone, s)"
    and borrow_idle: "inv s \<Longrightarrow> chan s = Idle \<Longrightarrow> borrow s = Inr (Nothing_Yet, s) \<or> borrow s = Inr (Gone, s)"
    and borrow_taken: "chan s = Taken n p \<Longrightarrow> borrow s = Inl Assert_Failed"
    and lent_not_gone: "lend n p s = Inr s' \<Longrightarrow> borrow s' \<noteq> Inr (Gone, s')"
    and back_taken: "inv s \<Longrightarrow> chan s = Taken n p \<Longrightarrow> \<exists>s'. give_back n p s = Inr s' \<and> inv s' \<and> chan s' = Idle"
    and back_other: "chan s \<noteq> Taken n p \<Longrightarrow> give_back n p s = Inl Assert_Failed"
begin

text \<open>One exchange, with what the borrower saw and whether the lender may go on at the end.\<close>

definition exchange :: "nat \<times> 'p \<Rightarrow> 's \<Rightarrow> ('p borrow_result \<times> bool \<times> 's) outcome" where
  "exchange np s =
     rbind (lend (fst np) (snd np) s) (\<lambda>s1.
     rbind (borrow s1) (\<lambda>(r, s2).
     rbind (give_back (fst np) (snd np) s2) (\<lambda>s3.
     rbind (over s3) (\<lambda>b. Inr (r, b, s3)))))"

fun exchanges :: "(nat \<times> 'p) list \<Rightarrow> 's \<Rightarrow> ('p borrow_result list \<times> 's) outcome" where
  "exchanges [] s = Inr ([], s)"
| "exchanges (x # xs) s =
     rbind (exchange x s) (\<lambda>(r, b, s1). rbind (exchanges xs s1) (\<lambda>(rs, s2). Inr (r # rs, s2)))"

lemma exchange_delivers:
  assumes "inv s" "chan s = Idle"
  shows "\<exists>s'. exchange (n, p) s = Inr (Borrowed n p, True, s') \<and> inv s' \<and> chan s' = Idle"
proof -
  obtain s1 where s1: "lend n p s = Inr s1" "inv s1" "chan s1 = Offered n p"
    using lend_idle [OF assms] by blast
  obtain s2 where s2: "borrow s1 = Inr (Borrowed n p, s2)" "inv s2" "chan s2 = Taken n p"
    using borrow_offered [OF s1(2,3)] lent_not_gone [OF s1(1)] by blast
  obtain s3 where s3: "give_back n p s2 = Inr s3" "inv s3" "chan s3 = Idle"
    using back_taken [OF s2(2,3)] by blast
  then show ?thesis using s1 s2 over_idle [OF s3(2)] by (simp add: exchange_def)
qed

lemma exchanges_deliver:
  assumes "inv s" "chan s = Idle"
  shows "\<exists>s'. exchanges xs s = Inr (map (\<lambda>(n, p). Borrowed n p) xs, s') \<and> inv s' \<and> chan s' = Idle"
  using assms
proof (induction xs arbitrary: s)
  case (Cons x xs)
  obtain n p where x: "x = (n, p)" by (cases x)
  obtain s1 where s1: "exchange (n, p) s = Inr (Borrowed n p, True, s1)" "inv s1" "chan s1 = Idle"
    using exchange_delivers [OF Cons.prems] by blast
  then show ?case using Cons.IH [OF s1(2,3)] x by auto
qed auto

text \<open>While something is on its way, a second lender fails its assertion.\<close>

lemma no_second_lender:
  assumes "inv s" "chan s = Idle" "lend n p s = Inr s1"
  shows "lend m q s1 = Inl Assert_Failed" "over s1 = Inr False"
proof -
  have "chan s1 = Offered n p" "inv s1" using lend_idle [OF assms(1,2), of n p] assms(3) by auto
  then show "lend m q s1 = Inl Assert_Failed" "over s1 = Inr False"
    using lend_busy [of s1] over_idle [of s1] by auto
qed

end

text \<open>The slot of the code keeps the contract.\<close>

definition slot_chan :: "'p iowork \<Rightarrow> 'p channel_state" where
  "slot_chan w =
     (case io_data w of
        None \<Rightarrow> Idle
      | Some p \<Rightarrow> if io_borrowed w then Taken (io_size w) p else Offered (io_size w) p)"

definition slot_inv :: "'p iowork \<Rightarrow> bool" where
  "slot_inv w \<longleftrightarrow> (io_data w = None \<longrightarrow> io_size w = 0 \<and> \<not> io_borrowed w)"

interpretation slot: handover slot_lend slot_lend_over slot_borrow slot_return slot_chan slot_inv
  by unfold_locales
    (auto simp: slot_lend_def slot_lend_over_def slot_borrow_def slot_borrow_loop_def slot_return_def
      slot_chan_def slot_inv_def empty_iowork_def c_assert_def split: option.splits if_splits)

lemma slot_inv_ops:
  "slot_inv empty_iowork"
  "slot_lend n p w = Inr w' \<Longrightarrow> slot_inv w'"
  "slot_inv w \<Longrightarrow> slot_borrow w = Inr (r, w') \<Longrightarrow> slot_inv w'"
  "slot_return n p w = Inr w' \<Longrightarrow> slot_inv w'"
  "slot_inv w \<Longrightarrow> slot_inv (slot_disable w)"
  by (auto simp: slot_inv_def slot_lend_def slot_borrow_def slot_borrow_loop_def slot_return_def
      slot_disable_def empty_iowork_def split: option.splits if_splits)

section \<open>The state of the scheduler\<close>

record 'p sus_state =
  s_ring :: "ring_heap \<times> addr option"   \<comment> \<open>\<open>s_current\<close> and the nodes\<close>
  s_iow :: "nat \<Rightarrow> 'p iowork"
  s_surrended :: bool
  s_scheduled :: fd_sets
  s_active :: fd_sets

definition MAX_VISITED :: nat where "MAX_VISITED = 100"

definition current_node :: "'p sus_state \<Rightarrow> (addr \<times> ring_node) outcome" where
  "current_node st =
     (case snd (s_ring st) of
        None \<Rightarrow> Inl Out_Of_Bounds_Read
      | Some c \<Rightarrow> rbind (deref (fst (s_ring st)) c) (\<lambda>n. Inr (c, n)))"

definition set_visited :: "nat \<Rightarrow> 'p sus_state \<Rightarrow> 'p sus_state outcome" where
  "set_visited v st =
     rbind (current_node st) (\<lambda>(c, n).
       Inr (st\<lparr>s_ring := ((fst (s_ring st))(c \<mapsto> n\<lparr>nd_visited := v\<rparr>), Some c)\<rparr>))"

text \<open>\<open>suspend\<close>, up to the transfer to the scheduler.\<close>

definition suspend :: "'p sus_state \<Rightarrow> 'p sus_state outcome" where
  "suspend st =
     rbind (current_node st) (\<lambda>(c, n).
       c_assert (nd_visited n < MAX_VISITED) (set_visited (nd_visited n + 1) st))"

text \<open>
  The wrappers that log a line before the suspension (and the same one with ``awaken'' after it):
  the line, and the state. In \<open>suspend_io_errno\<close> the text of the error follows.
\<close>

primrec ioset_to_method :: "ioset \<Rightarrow> string" where
  "ioset_to_method IOSET_READ = ''read''"
| "ioset_to_method IOSET_WRITE = ''write''"
| "ioset_to_method IOSET_OOB = ''oob''"

definition suspended_at :: "byte list \<Rightarrow> 'p sus_state \<Rightarrow> (byte list \<times> 'p sus_state) outcome" where
  "suspended_at place st =
     rbind (current_node st) (\<lambda>(c, n).
     rbind (suspend st) (\<lambda>st'. Inr (lit ''suspended '' @ lit (nd_name n) @ lit '' at '' @ place, st')))"

definition suspend_only :: "string \<Rightarrow> 'p sus_state \<Rightarrow> (byte list \<times> 'p sus_state) outcome" where
  "suspend_only method = suspended_at (lit method)"

definition suspend_io :: "nat \<Rightarrow> ioset \<Rightarrow> 'p sus_state \<Rightarrow> (byte list \<times> 'p sus_state) outcome" where
  "suspend_io fd ios = suspended_at (lit (ioset_to_method ios) @ lit '' fd '' @ print_u fd)"

definition suspend_io_errno :: "byte list \<Rightarrow> nat \<Rightarrow> ioset \<Rightarrow> 'p sus_state \<Rightarrow> (byte list \<times> 'p sus_state) outcome" where
  "suspend_io_errno strerror fd ios =
     suspended_at (lit (ioset_to_method ios) @ lit '' fd '' @ print_u fd @ lit '': '' @ strerror)"

definition suspend_id :: "string \<Rightarrow> nat \<Rightarrow> 'p sus_state \<Rightarrow> (byte list \<times> 'p sus_state) outcome" where
  "suspend_id method ident = suspended_at (lit method @ lit '' id '' @ print_u ident)"

text \<open>Apart from the line they are all \<open>suspend\<close>; the calls below use it without the line.\<close>

lemma suspended_at_state: "rbind (suspended_at place st) (\<lambda>(l, st'). Inr st') = suspend st"
  by (cases "current_node st") (auto simp: suspended_at_def suspend_def rbind_assoc split_beta)

text \<open>How a call ends: suspended, or with a result.\<close>

datatype 'a progress = Blocked | Finished 'a

type_synonym ('a, 'p) sus_call = "'p sus_state \<Rightarrow> ('a progress \<times> 'p sus_state) outcome"

definition block :: "('a, 'p) sus_call" where
  "block st = rbind (suspend st) (\<lambda>st'. Inr (Blocked, st'))"

definition finish :: "'a \<Rightarrow> ('a, 'p) sus_call" where
  "finish v st = rbind (set_visited 0 st) (\<lambda>st'. Inr (Finished v, st'))"

text \<open>\<open>s_iow\<close> has \<open>UINT8_MAX\<close> elements, one less than a \<open>uint8_t\<close> has values.\<close>

definition slot_at :: "nat \<Rightarrow> 'p sus_state \<Rightarrow> 'p iowork outcome" where
  "slot_at ident st = (if ident < 255 then Inr (s_iow st ident) else Inl Out_Of_Bounds_Read)"

definition put_slot :: "nat \<Rightarrow> 'p iowork \<Rightarrow> 'p sus_state \<Rightarrow> 'p sus_state" where
  "put_slot ident w st = st\<lparr>s_iow := (s_iow st)(ident := w)\<rparr>"

section \<open>Lending and borrowing\<close>

definition sus_disable :: "nat \<Rightarrow> 'p sus_state \<Rightarrow> 'p sus_state outcome" where
  "sus_disable ident st = rbind (slot_at ident st) (\<lambda>w. Inr (put_slot ident (slot_disable w) st))"

definition sus_lend_again :: "nat \<Rightarrow> (unit, 'p) sus_call" where
  "sus_lend_again ident st =
     rbind (slot_at ident st) (\<lambda>w. rbind (slot_lend_over w) (\<lambda>b. if b then finish () st else block st))"

definition sus_lend :: "nat \<Rightarrow> nat \<Rightarrow> 'p \<Rightarrow> (unit, 'p) sus_call" where
  "sus_lend ident sz data st =
     rbind (slot_at ident st) (\<lambda>w. rbind (slot_lend sz data w) (\<lambda>w'.
       sus_lend_again ident (put_slot ident w' st)))"

text \<open>\<open>None\<close> is the return value -1 with \<open>EIDRM\<close>; it leaves \<open>visited\<close> alone.\<close>

definition borrow_end :: "nat \<Rightarrow> 'p borrow_result \<times> 'p iowork \<Rightarrow> ((nat \<times> 'p) option, 'p) sus_call" where
  "borrow_end ident rw st =
     (case fst rw of
        Borrowed n p \<Rightarrow> finish (Some (n, p)) (put_slot ident (snd rw) st)
      | Gone \<Rightarrow> Inr (Finished None, st)
      | Nothing_Yet \<Rightarrow> block st)"

definition sus_borrow :: "nat \<Rightarrow> ((nat \<times> 'p) option, 'p) sus_call" where
  "sus_borrow ident st = rbind (slot_at ident st) (\<lambda>w. rbind (slot_borrow w) (\<lambda>rw. borrow_end ident rw st))"

definition sus_borrow_again :: "nat \<Rightarrow> ((nat \<times> 'p) option, 'p) sus_call" where
  "sus_borrow_again ident st = rbind (slot_at ident st) (\<lambda>w. borrow_end ident (slot_borrow_loop w) st)"

definition sus_return :: "nat \<Rightarrow> 'p \<Rightarrow> nat \<Rightarrow> (unit, 'p) sus_call" where
  "sus_return ident data sz st =
     rbind (slot_at ident st) (\<lambda>w. rbind (slot_return sz data w) (\<lambda>w'. finish () (put_slot ident w' st)))"

section \<open>Reading and writing\<close>

text \<open>
  \<open>suspend_until_active\<close>: \<open>Finished\<close> when the call goes on to the kernel. After the loop surrendered
  it goes on as well.
\<close>

definition suspend_until_active :: "nat \<Rightarrow> ioset \<Rightarrow> (unit, 'p) sus_call" where
  "suspend_until_active fd ios st =
     (if s_surrended st then Inr (Finished (), st)
      else if fd \<in> s_active st ios then Inr (Finished (), st)
      else block (st\<lparr>s_scheduled := (s_scheduled st)(ios := insert fd (s_scheduled st ios))\<rparr>))"

text \<open>What \<open>read\<close> and \<open>write\<close> answer: a result (negative for an error), or \<open>EAGAIN\<close>.\<close>

datatype 'r kernel_answer = Answer 'r | Try_Again

text \<open>
  One passage through \<open>sus_write\<close> or \<open>sus_read\<close>, from \<open>again\<close> on: they start and are continued at the
  same place, since every suspension leads back to the test.
\<close>

definition sus_write :: "nat \<Rightarrow> 'r kernel_answer \<Rightarrow> ('r, 'p) sus_call" where
  "sus_write fd k st =
     rbind (suspend_until_active fd IOSET_WRITE st) (\<lambda>(g, st').
       case g of
         Blocked \<Rightarrow> Inr (Blocked, st')
       | Finished _ \<Rightarrow> (case k of Try_Again \<Rightarrow> block st' | Answer r \<Rightarrow> finish r st'))"

definition sus_read :: "nat \<Rightarrow> 'r kernel_answer \<Rightarrow> ('r, 'p) sus_call" where
  "sus_read fd k st =
     rbind (suspend_until_active fd IOSET_READ st) (\<lambda>(g, st').
       case g of
         Blocked \<Rightarrow> Inr (Blocked, st')
       | Finished _ \<Rightarrow>
           (case k of
              Try_Again \<Rightarrow> block st'
            | Answer r \<Rightarrow>
                rbind (set_visited 0 st') (\<lambda>st''.
                  Inr (Finished r, st''\<lparr>s_active := (s_active st'')(IOSET_READ := s_active st'' IOSET_READ - {fd})\<rparr>))))"

section \<open>The I/O loop\<close>

text \<open>
  The part of \<open>sus_ioloop\<close> before \<open>suspend_only\<close>: \<open>Finished\<close> when no other task is left.
\<close>

definition ioloop_begin :: "fd_sets \<Rightarrow> (unit, 'p) sus_call" where
  "ioloop_begin sets st =
     rbind (current_node st) (\<lambda>(c, n).
       if nd_next n = c then Inr (Finished (), st)
       else block (st\<lparr>s_scheduled := (\<lambda>_. {}), s_active := sets\<rparr>))"

text \<open>After the other tasks had their turn: the sets to wait for, and whether there is anything.\<close>

definition ioloop_sets :: "'p sus_state \<Rightarrow> fd_sets \<times> bool" where
  "ioloop_sets st =
     (s_scheduled st, \<exists>j \<in> {0..<10}. j \<in> s_scheduled st IOSET_READ \<or> j \<in> s_scheduled st IOSET_WRITE \<or> j \<in> s_scheduled st IOSET_OOB)"

datatype loop_next = Wait_Again fd_sets | Loop_Over

definition ioloop_turn ::
  "(io_params \<Rightarrow> (int \<times> io_params) outcome) \<Rightarrow> io_params \<Rightarrow> 'p sus_state \<Rightarrow> (loop_next \<times> io_params \<times> 'p sus_state) outcome" where
  "ioloop_turn iowait iop st =
     (case ioloop_sets st of (sets, ok) \<Rightarrow>
        let iop' = iop\<lparr>iop_set := sets\<rparr> in
        if \<not> ok then Inr (Wait_Again sets, iop', st)
        else rbind (iowait iop') (\<lambda>(ret, iop'').
          Inr (if ret > 0 then Wait_Again (iop_set iop'') else Loop_Over, iop'', st)))"

text \<open>What the loop does from being resumed until it suspends again or is over.\<close>

definition ioloop_resume ::
  "(io_params \<Rightarrow> (int \<times> io_params) outcome) \<Rightarrow> io_params \<Rightarrow> 'p sus_state \<Rightarrow> (unit progress \<times> io_params \<times> 'p sus_state) outcome" where
  "ioloop_resume iowait iop st =
     rbind (ioloop_turn iowait iop st) (\<lambda>(nx, iop', st').
       case nx of
         Wait_Again sets \<Rightarrow> rbind (ioloop_begin sets st') (\<lambda>(r, st''). Inr (r, iop', st''))
       | Loop_Over \<Rightarrow> Inr (Finished (), iop', st'))"

text \<open>Descriptors 0 to 9 are closed; the descriptors left open are the result's second part.\<close>

definition ioloop_end :: "nat set \<Rightarrow> 'p sus_state \<Rightarrow> int \<times> nat set \<times> 'p sus_state" where
  "ioloop_end open_fds st = (- 1, open_fds - {0..<10}, st\<lparr>s_surrended := True\<rparr>)"

section \<open>Facts\<close>

lemma block_visited:
  assumes "snd (s_ring st) = Some c" "fst (s_ring st) c = Some n" "nd_visited n < MAX_VISITED"
  shows "block st = Inr (Blocked, st\<lparr>s_ring := ((fst (s_ring st))(c \<mapsto> n\<lparr>nd_visited := nd_visited n + 1\<rparr>), Some c)\<rparr>)"
  using assms by (simp add: block_def suspend_def current_node_def set_visited_def deref_def)

lemma block_deadlk:
  assumes "snd (s_ring st) = Some c" "fst (s_ring st) c = Some n" "\<not> nd_visited n < MAX_VISITED"
  shows "block st = Inl Assert_Failed"
  using assms by (simp add: block_def suspend_def current_node_def deref_def)

lemma finish_visited:
  assumes "snd (s_ring st) = Some c" "fst (s_ring st) c = Some n"
  shows "finish v st = Inr (Finished v, st\<lparr>s_ring := ((fst (s_ring st))(c \<mapsto> n\<lparr>nd_visited := 0\<rparr>), Some c)\<rparr>)"
  using assms by (simp add: finish_def current_node_def set_visited_def deref_def)

text \<open>Suspending the same task over and over without progress.\<close>

fun suspend_times :: "nat \<Rightarrow> 'p sus_state \<Rightarrow> 'p sus_state outcome" where
  "suspend_times 0 st = Inr st"
| "suspend_times (Suc k) st = rbind (suspend st) (suspend_times k)"

lemma suspend_times_visited:
  assumes "snd (s_ring st) = Some c" "fst (s_ring st) c = Some n"
  shows "if nd_visited n + k \<le> MAX_VISITED
    then \<exists>st'. suspend_times k st = Inr st' \<and> snd (s_ring st') = Some c
      \<and> (\<exists>n'. fst (s_ring st') c = Some n' \<and> nd_visited n' = nd_visited n + k)
    else nd_visited n \<le> MAX_VISITED \<longrightarrow> suspend_times k st = Inl Assert_Failed"
  using assms
proof (induction k arbitrary: st n)
  case (Suc k)
  show ?case
  proof (cases "nd_visited n < MAX_VISITED")
    case True
    let ?st = "st\<lparr>s_ring := ((fst (s_ring st))(c \<mapsto> n\<lparr>nd_visited := nd_visited n + 1\<rparr>), Some c)\<rparr>"
    have "suspend st = Inr ?st"
      using Suc.prems True by (simp add: suspend_def current_node_def set_visited_def deref_def)
    then show ?thesis using Suc.IH [of ?st "n\<lparr>nd_visited := nd_visited n + 1\<rparr>"] True by auto
  next
    case False
    then have "suspend st = Inl Assert_Failed"
      using Suc.prems by (simp add: suspend_def current_node_def deref_def)
    then show ?thesis using False by auto
  qed
qed auto

section \<open>What the tasks can rely on\<close>

text \<open>
  C12. One exchange over a free slot: the borrower gets exactly what was lent; until it is given back, lending
  again and borrowing again fail their assertions and the lender stays suspended; afterwards the slot
  is free and the lender goes on. Lending also makes a slot usable again that \<open>sus_disable\<close> had
  closed.
\<close>

theorem slot_exchange:
  assumes "slot_inv w" "io_data w = None"
  shows "\<exists>w1 w2 w3. slot_lend n p w = Inr w1 \<and> slot_lend_over w1 = Inr False \<and> slot_lend m q w1 = Inl Assert_Failed
    \<and> slot_borrow w1 = Inr (Borrowed n p, w2) \<and> slot_borrow w2 = Inl Assert_Failed \<and> slot_lend m q w2 = Inl Assert_Failed
    \<and> slot_lend_over w2 = Inr False
    \<and> slot_return n p w2 = Inr w3 \<and> slot_lend_over w3 = Inr True \<and> slot_inv w3 \<and> io_data w3 = None \<and> \<not> io_disabled w3"
proof -
  have idle: "slot_chan w = Idle" using assms(2) by (simp add: slot_chan_def)
  obtain w1 where w1: "slot_lend n p w = Inr w1" "slot_inv w1" "slot_chan w1 = Offered n p"
    using slot.lend_idle [OF assms(1) idle] by blast
  obtain w2 where w2: "slot_borrow w1 = Inr (Borrowed n p, w2)" "slot_inv w2" "slot_chan w2 = Taken n p"
    using slot.borrow_offered [OF w1(2,3)] slot.lent_not_gone [OF w1(1)] by blast
  obtain w3 where w3: "slot_return n p w2 = Inr w3" "slot_inv w3" "slot_chan w3 = Idle"
    using slot.back_taken [OF w2(2,3)] by blast
  have "w3 = empty_iowork" using w3(1) by (auto simp: slot_return_def)
  then show ?thesis
    using w1 w2 w3 slot.no_second_lender [OF assms(1) idle w1(1)] slot.lend_busy [of w2] slot.borrow_taken [OF w2(3)]
      slot.over_idle [OF w2(2)] slot.over_idle [OF w3(2)]
    by (simp add: empty_iowork_def)
qed

theorem slot_exchange_witness:
  "\<exists>w1. slot_lend 5 ''hello'' (slot_disable empty_iowork) = Inr w1 \<and> slot_lend_over w1 = Inr False"
  using slot_exchange [of "slot_disable empty_iowork :: string iowork" 5 "''hello''"] slot_inv_ops(1,5)
  by (fastforce simp: slot_disable_def empty_iowork_def)

text \<open>The counter of a node.\<close>

definition visited_of :: "addr \<Rightarrow> 'p sus_state \<Rightarrow> nat option" where
  "visited_of c st = map_option nd_visited (fst (s_ring st) c)"

lemma set_visited_other: "set_visited v st = Inr st' \<Longrightarrow> snd (s_ring st) \<noteq> Some c \<Longrightarrow> visited_of c st' = visited_of c st"
  by (auto simp: set_visited_def current_node_def visited_of_def rbind_eq_Inr split: option.splits)

lemma suspend_other: "suspend st = Inr st' \<Longrightarrow> snd (s_ring st) \<noteq> Some c \<Longrightarrow> visited_of c st' = visited_of c st"
  by (auto simp: suspend_def rbind_eq_Inr dest: set_visited_other)

lemma block_other: "block st = Inr (r, st') \<Longrightarrow> snd (s_ring st) \<noteq> Some c \<Longrightarrow> visited_of c st' = visited_of c st"
  by (auto simp: block_def rbind_eq_Inr dest: suspend_other)

lemma finish_other: "finish v st = Inr (r, st') \<Longrightarrow> snd (s_ring st) \<noteq> Some c \<Longrightarrow> visited_of c st' = visited_of c st"
  by (auto simp: finish_def rbind_eq_Inr dest: set_visited_other)

lemma put_slot_same [simp]:
  "s_ring (put_slot i w st) = s_ring st" "visited_of c (put_slot i w st) = visited_of c st"
  by (simp_all add: put_slot_def visited_of_def)

lemma visited_of_same [simp]:
  "visited_of c (st\<lparr>s_scheduled := f\<rparr>) = visited_of c st" "visited_of c (st\<lparr>s_active := f\<rparr>) = visited_of c st"
  "visited_of c (st\<lparr>s_scheduled := f, s_active := g\<rparr>) = visited_of c st"
  by (simp_all add: visited_of_def)

section \<open>The loop among the other tasks\<close>

text \<open>Everything a task can do through \<open>sus.h\<close>, in the way the current task does it.\<close>

inductive task_call :: "'p sus_state \<Rightarrow> 'p sus_state \<Rightarrow> bool" where
  lend: "sus_lend ident sz data st = Inr (r, st') \<Longrightarrow> task_call st st'"
| lend_again: "sus_lend_again ident st = Inr (r, st') \<Longrightarrow> task_call st st'"
| borrow: "sus_borrow ident st = Inr (b, st') \<Longrightarrow> task_call st st'"
| borrow_again: "sus_borrow_again ident st = Inr (b, st') \<Longrightarrow> task_call st st'"
| give_back: "sus_return ident data sz st = Inr (r, st') \<Longrightarrow> task_call st st'"
| give_up: "sus_disable ident st = Inr st' \<Longrightarrow> task_call st st'"
| on_write: "sus_write fd (k :: int kernel_answer) st = Inr (n, st') \<Longrightarrow> task_call st st'"
| on_read: "sus_read fd (k :: int kernel_answer) st = Inr (n, st') \<Longrightarrow> task_call st st'"

lemma until_active_other:
  "suspend_until_active fd ios st = Inr (g, st') \<Longrightarrow> snd (s_ring st) \<noteq> Some c \<Longrightarrow>
   visited_of c st' = visited_of c st \<and> snd (s_ring st') = snd (s_ring st)"
  by (auto simp: suspend_until_active_def block_def suspend_def set_visited_def current_node_def visited_of_def rbind_eq_Inr
      split: if_splits option.splits)

lemma borrow_end_other:
  "borrow_end ident rw st = Inr (b, st') \<Longrightarrow> snd (s_ring st) \<noteq> Some c \<Longrightarrow> visited_of c st' = visited_of c st"
  by (cases "fst rw") (auto simp: borrow_end_def dest: block_other finish_other)

lemma call_other:
  assumes "task_call st st'" "snd (s_ring st) \<noteq> Some c"
  shows "visited_of c st' = visited_of c st"
  using assms
proof (cases rule: task_call.cases)
  case (on_write fd k n)
  then obtain g st1 where g: "suspend_until_active fd IOSET_WRITE st = Inr (g, st1)"
    and rest: "(case g of Blocked \<Rightarrow> Inr (Blocked, st1)
      | Finished _ \<Rightarrow> (case k of Try_Again \<Rightarrow> block st1 | Answer r \<Rightarrow> finish r st1)) = Inr (n, st')"
    by (auto simp: sus_write_def rbind_eq_Inr)
  have "visited_of c st1 = visited_of c st" "snd (s_ring st1) \<noteq> Some c"
    using until_active_other [OF g assms(2)] assms(2) by simp_all
  then show ?thesis using rest by (cases g; cases k) (auto dest: block_other finish_other)
next
  case (on_read fd k n)
  then obtain g st1 where g: "suspend_until_active fd IOSET_READ st = Inr (g, st1)"
    and rest: "(case g of Blocked \<Rightarrow> Inr (Blocked, st1)
      | Finished _ \<Rightarrow> (case k of Try_Again \<Rightarrow> block st1
        | Answer r \<Rightarrow> rbind (set_visited 0 st1) (\<lambda>st2.
            Inr (Finished r, st2\<lparr>s_active := (s_active st2)(IOSET_READ := s_active st2 IOSET_READ - {fd})\<rparr>)))) = Inr (n, st')"
    by (auto simp: sus_read_def rbind_eq_Inr)
  have "visited_of c st1 = visited_of c st" "snd (s_ring st1) \<noteq> Some c"
    using until_active_other [OF g assms(2)] assms(2) by simp_all
  then show ?thesis using rest by (cases g; cases k) (auto simp: rbind_eq_Inr dest: block_other set_visited_other)
qed (auto simp: sus_lend_def sus_lend_again_def sus_borrow_def sus_borrow_again_def sus_return_def sus_disable_def
      rbind_eq_Inr split: if_splits dest: block_other finish_other borrow_end_other)

text \<open>
  What happens to the ring while the loop, the node \<open>c\<close>, is suspended: the other tasks make their calls, the
  scheduler goes on to the next node, a task that ended is unlinked.
\<close>

inductive meanwhile :: "addr \<Rightarrow> 'p sus_state \<Rightarrow> 'p sus_state \<Rightarrow> bool" for c where
  call: "snd (s_ring st) \<noteq> Some c \<Longrightarrow> task_call st st' \<Longrightarrow> meanwhile c st st'"
| turn: "advance (s_ring st) = Inr rg \<Longrightarrow> meanwhile c st (st\<lparr>s_ring := rg\<rparr>)"
| task_end: "snd (s_ring st) \<noteq> Some c \<Longrightarrow> shrink (s_ring st) = Inr rg \<Longrightarrow> meanwhile c st (st\<lparr>s_ring := rg\<rparr>)"

lemma advance_heap: "advance rg = Inr rg' \<Longrightarrow> fst rg' = fst rg"
  by (cases rg) (auto simp: advance_def rbind_eq_Inr split: option.splits)

lemma set_link_visited:
  "set_next h a v = Inr h' \<Longrightarrow> map_option nd_visited (h' c) = map_option nd_visited (h c)"
  "set_prev h a v = Inr h' \<Longrightarrow> map_option nd_visited (h' c) = map_option nd_visited (h c)"
  by (auto simp: set_next_def set_prev_def deref_def rbind_eq_Inr split: option.splits)

lemma shrink_visited:
  "shrink rg = Inr rg' \<Longrightarrow> map_option nd_visited (fst rg' c) = map_option nd_visited (fst rg c)"
  by (cases rg) (auto simp: shrink_def rbind_eq_Inr split: option.splits if_splits dest!: set_link_visited [where c = c])

lemma meanwhile_visited:
  assumes "meanwhile c st st'"
  shows "visited_of c st' = visited_of c st"
  using assms
proof cases
  case call
  then show ?thesis by (simp add: call_other)
next
  case (turn rg)
  then show ?thesis using advance_heap [of "s_ring st" rg] by (simp add: visited_of_def)
next
  case (task_end rg)
  then show ?thesis using shrink_visited [of "s_ring st" rg c] by (simp add: visited_of_def)
qed

text \<open>The states in which the loop is suspended for the \<open>k\<close>-th time, and after it what the others do.\<close>

inductive loop_rounds :: "(io_params \<Rightarrow> (int \<times> io_params) outcome) \<Rightarrow> addr \<Rightarrow> nat \<Rightarrow> io_params \<Rightarrow> 'p sus_state \<Rightarrow> bool"
  for iowait c where
  first: "snd (s_ring st) = Some c \<Longrightarrow> ioloop_begin (iop_set iop) st = Inr (Blocked, st') \<Longrightarrow> loop_rounds iowait c 1 iop st'"
| others: "loop_rounds iowait c k iop st \<Longrightarrow> meanwhile c st st' \<Longrightarrow> loop_rounds iowait c k iop st'"
| again: "loop_rounds iowait c k iop st \<Longrightarrow> snd (s_ring st) = Some c \<Longrightarrow>
    ioloop_resume iowait iop st = Inr (Blocked, iop', st') \<Longrightarrow> loop_rounds iowait c (Suc k) iop' st'"

lemma ioloop_visits:
  assumes "ioloop_begin sets st = Inr (Blocked, st')" "snd (s_ring st) = Some c"
  shows "\<exists>v. visited_of c st = Some v \<and> v < MAX_VISITED \<and> visited_of c st' = Some (v + 1)"
  using assms
  by (auto simp: ioloop_begin_def block_def suspend_def set_visited_def current_node_def deref_def visited_of_def
      rbind_eq_Inr split: if_splits option.splits)

lemma turn_state: "ioloop_turn iowait iop st = Inr (nx, iop', st') \<Longrightarrow> st' = st"
  by (auto simp: ioloop_turn_def ioloop_sets_def Let_def rbind_eq_Inr split: if_splits)

lemma resume_visits:
  assumes "ioloop_resume iowait iop st = Inr (Blocked, iop', st')" "snd (s_ring st) = Some c"
  shows "\<exists>v. visited_of c st = Some v \<and> v < MAX_VISITED \<and> visited_of c st' = Some (v + 1)"
proof -
  obtain nx st1 where t: "ioloop_turn iowait iop st = Inr (nx, iop', st1)"
    and rest: "(case nx of Wait_Again sets \<Rightarrow> ioloop_begin sets st1 = Inr (Blocked, st') | Loop_Over \<Rightarrow> False)"
  proof (cases "ioloop_turn iowait iop st")
    case (Inr t)
    then show thesis using assms(1) that by (cases t; cases "fst t") (auto simp: ioloop_resume_def rbind_eq_Inr)
  qed (use assms(1) in \<open>simp add: ioloop_resume_def\<close>)
  then show ?thesis using turn_state [OF t] ioloop_visits [OF _ assms(2)] by (cases nx) auto
qed

lemma rounds_visited:
  "loop_rounds iowait c k iop st \<Longrightarrow> \<exists>v. visited_of c st = Some v \<and> k \<le> v \<and> v \<le> MAX_VISITED"
proof (induction rule: loop_rounds.induct)
  case (first st iop st')
  then show ?case using ioloop_visits by fastforce
next
  case (others k iop st st')
  then show ?case using meanwhile_visited by metis
next
  case (again k iop st iop' st')
  then show ?case using resume_visits [OF again(3,2)] by auto
qed

text \<open>
  C21. The I/O loop suspends at most a hundred times in its life, whatever the other tasks do in between:
  nothing in a round of it sets its counter back, and the calls of the other tasks, their ends and the
  scheduler leave it alone. With another task alive, the round after the hundredth that has to wait again ends
  in the assertion of \<open>suspend\<close>.
\<close>

theorem ioloop_rounds_bounded:
  assumes "loop_rounds iowait c k iop st"
  shows "k \<le> 100 \<and>
    (k = 100 \<and> snd (s_ring st) = Some c \<and> next_of (fst (s_ring st)) c \<noteq> Some c
       \<and> ioloop_turn iowait iop st = Inr (Wait_Again sets, iop', st')
     \<longrightarrow> ioloop_resume iowait iop st = Inl Assert_Failed)"
proof -
  obtain v where v: "visited_of c st = Some v" "k \<le> v" "v \<le> 100"
    using rounds_visited [OF assms] by (auto simp: MAX_VISITED_def)
  then obtain n where n: "fst (s_ring st) c = Some n" "nd_visited n = v" by (auto simp: visited_of_def)
  have "ioloop_resume iowait iop st = Inl Assert_Failed"
    if "k = 100" "snd (s_ring st) = Some c" "next_of (fst (s_ring st)) c \<noteq> Some c"
      "ioloop_turn iowait iop st = Inr (Wait_Again sets, iop', st')"
    using that v n turn_state [OF that(4)]
    by (simp add: ioloop_resume_def ioloop_begin_def current_node_def deref_def next_of_def block_def suspend_def MAX_VISITED_def)
  then show ?thesis using v by auto
qed

text \<open>The I/O loop and one other task, in the round in which the counter of the loop is \<open>i\<close>.\<close>

definition two_tasks :: "nat \<Rightarrow> addr \<Rightarrow> unit sus_state" where
  "two_tasks i cur =
     \<lparr>s_ring = (two_nodes(1 \<mapsto> \<lparr>nd_prev = 2, nd_next = 2, nd_ctx = 10, nd_visited = i, nd_name = ''sus_ioloop''\<rparr>), Some cur),
      s_iow = (\<lambda>_. empty_iowork), s_surrended = False, s_scheduled = (\<lambda>_. {}), s_active = (\<lambda>_. {})\<rparr>"

definition no_sets :: io_params where
  "no_sets = \<lparr>iop_set = (\<lambda>_. {}), iop_maxfd = 10, iop_deadline = \<lparr>tv_sec = 0, tv_usec = 0\<rparr>\<rparr>"

lemma two_tasks_ring:
  "snd (s_ring (two_tasks i cur)) = Some cur" "advance (s_ring (two_tasks i 1)) = Inr (s_ring (two_tasks i 2))"
  "advance (s_ring (two_tasks i 2)) = Inr (s_ring (two_tasks i 1))" "two_tasks i cur\<lparr>s_ring := s_ring (two_tasks i cur')\<rparr> = two_tasks i cur'"
  by (simp_all add: two_tasks_def advance_def deref_def two_nodes_def)

lemma two_tasks_begin:
  "i < 100 \<Longrightarrow> ioloop_begin (\<lambda>_. {}) (two_tasks i 1) = Inr (Blocked, two_tasks (i + 1) 1)"
  by (simp add: ioloop_begin_def block_def suspend_def set_visited_def current_node_def deref_def two_tasks_def
      MAX_VISITED_def two_nodes_def fun_upd_twist)

lemma two_tasks_turn: "ioloop_turn iowait no_sets (two_tasks i cur) = Inr (Wait_Again (\<lambda>_. {}), no_sets, two_tasks i cur)"
  by (simp add: ioloop_turn_def ioloop_sets_def two_tasks_def no_sets_def Let_def)

text \<open>Between two rounds the other task finds its slot free again and goes on.\<close>

lemma two_tasks_between:
  assumes "loop_rounds iowait 1 k iop (two_tasks i 1)"
  shows "loop_rounds iowait 1 k iop (two_tasks i 1)"
proof -
  have "sus_lend_again 0 (two_tasks i 2) = Inr (Finished (), two_tasks i 2)"
    by (simp add: sus_lend_again_def slot_at_def slot_lend_over_def empty_iowork_def finish_def set_visited_def current_node_def
        deref_def two_tasks_def two_nodes_def fun_upd_twist)
  then have "task_call (two_tasks i 2) (two_tasks i 2)" by (rule lend_again)
  then have mid: "meanwhile 1 (two_tasks i 2) (two_tasks i 2)" by (rule call [rotated]) (simp add: two_tasks_ring(1))
  have go: "meanwhile 1 (two_tasks i 1) (two_tasks i 2)" and home: "meanwhile 1 (two_tasks i 2) (two_tasks i 1)"
    using turn [OF two_tasks_ring(2)] turn [OF two_tasks_ring(3)] by (simp_all only: two_tasks_ring(4))
  show ?thesis by (rule others [OF others [OF others [OF assms go] mid] home])
qed

lemma two_tasks_rounds: "1 \<le> k \<Longrightarrow> k \<le> 100 \<Longrightarrow> loop_rounds iowait 1 k no_sets (two_tasks k 1)"
proof (induction k rule: dec_induct)
  case base
  then show ?case using first [of "two_tasks 0 1" 1 no_sets "two_tasks 1 1" iowait] two_tasks_begin [of 0] two_tasks_ring(1)
    by (simp add: no_sets_def)
next
  case (step k)
  then have "ioloop_resume iowait no_sets (two_tasks k 1) = Inr (Blocked, no_sets, two_tasks (Suc k) 1)"
    using two_tasks_begin [of k] by (simp add: ioloop_resume_def two_tasks_turn)
  then show ?case using again [OF two_tasks_between two_tasks_ring(1)] step by simp
qed

theorem ioloop_rounds_witness:
  "loop_rounds (\<lambda>iop. Inr (1, iop)) 1 100 no_sets (two_tasks 100 1)
    \<and> ioloop_resume (\<lambda>iop. Inr (1, iop)) no_sets (two_tasks 100 1) = Inl Assert_Failed"
  using ioloop_rounds_bounded [OF two_tasks_rounds [of 100 "\<lambda>iop. Inr (1, iop)"], of "\<lambda>_. {}" no_sets "two_tasks 100 1"]
    two_tasks_rounds [of 100 "\<lambda>iop. Inr (1, iop)"] two_tasks_ring(1) [of 100 1] two_tasks_turn
  by (simp add: next_of_def) (simp add: two_tasks_def)

end
