(* ===== verification/Scheduler.thy ===== *)
theory Scheduler
  imports Suspendables
begin

text \<open>
  \<open>sus_runall\<close> of \<open>multitasking/suspendables.c\<close>: it starts every task and resumes the current one of
  the ring until none is left. The coroutine library is not in the tree: \<open>resume i h w\<close> stands for
  what task number \<open>i\<close> does from being resumed until it suspends again (\<open>None\<close>) or its entry function
  returns; it gets and leaves the nodes of the ring (their \<open>visited\<close> counters) and the rest of the
  program's state.
\<close>

section \<open>Running all tasks\<close>

type_synonym 'w resume = "nat \<Rightarrow> ring_heap \<Rightarrow> 'w \<Rightarrow> (int option \<times> ring_heap \<times> 'w) outcome"

record 'w run =
  rn_ring :: "ring_heap \<times> addr option"
  rn_result :: "nat \<Rightarrow> int"   \<comment> \<open>the field \<open>result\<close> of the registration forms\<close>
  rn_world :: 'w

definition sus_exit :: "'w run \<Rightarrow> 'w run outcome" where
  "sus_exit r = rbind (shrink (rn_ring r)) (\<lambda>rg. Inr (r\<lparr>rn_ring := rg\<rparr>))"

text \<open>The end of \<open>starter\<close>, when the entry function has returned \<open>v\<close>.\<close>

definition starter :: "nat \<Rightarrow> int \<Rightarrow> 'w run \<Rightarrow> 'w run outcome" where
  "starter i v r = sus_exit (r\<lparr>rn_result := (rn_result r)(i := v)\<rparr>)"

definition transfer :: "'w resume \<Rightarrow> nat \<Rightarrow> 'w run \<Rightarrow> 'w run outcome" where
  "transfer resume i r =
     rbind (resume i (fst (rn_ring r)) (rn_world r)) (\<lambda>(v, h, w).
       let r1 = r\<lparr>rn_ring := (h, snd (rn_ring r)), rn_world := w\<rparr> in
       case v of None \<Rightarrow> Inr r1 | Some v \<Rightarrow> starter i v r1)"

text \<open>One turn of the loop: the transfer, then \<open>s_current ? s_current->next : NULL\<close>.\<close>

definition sched_turn :: "'w resume \<Rightarrow> addr \<Rightarrow> 'w run \<Rightarrow> 'w run outcome" where
  "sched_turn resume c r =
     rbind (deref (fst (rn_ring r)) c) (\<lambda>n.
     rbind (transfer resume (nd_ctx n) r) (\<lambda>r1.
     rbind (advance (rn_ring r1)) (\<lambda>rg. Inr (r1\<lparr>rn_ring := rg\<rparr>))))"

text \<open>The loop need not end; \<open>None\<close> is the value when it does not.\<close>

partial_function (option) sched_loop :: "'w resume \<Rightarrow> 'w run \<Rightarrow> 'w run outcome option" where
  "sched_loop resume r =
     (case snd (rn_ring r) of
        None \<Rightarrow> Some (Inr r)
      | Some c \<Rightarrow>
          (case sched_turn resume c r of
             Inl e \<Rightarrow> Some (Inl e)
           | Inr r1 \<Rightarrow> sched_loop resume r1))"

fun insert_all :: "(nat \<Rightarrow> addr option) \<Rightarrow> (nat \<Rightarrow> string) \<Rightarrow> nat list \<Rightarrow> ring_heap \<times> addr option
    \<Rightarrow> (ring_heap \<times> addr option) outcome" where
  "insert_all malloc name [] s = Inr s"
| "insert_all malloc name (i # is) s = rbind (insert_ctx (malloc i) i (name i) s) (insert_all malloc name is)"

text \<open>
  \<open>alloc i\<close> says whether the stack of task \<open>i\<close> could be allocated; if one could not, nothing is
  run. \<open>s_current\<close> is null at the start.
\<close>

definition sus_runall :: "(nat \<Rightarrow> bool) \<Rightarrow> (nat \<Rightarrow> addr option) \<Rightarrow> (nat \<Rightarrow> string) \<Rightarrow> 'w resume \<Rightarrow> nat \<Rightarrow> ring_heap \<Rightarrow> 'w
    \<Rightarrow> (int \<times> 'w run) outcome option" where
  "sus_runall alloc malloc name resume len h w =
     (let r = \<lparr>rn_ring = (h, None), rn_result = (\<lambda>_. 0), rn_world = w\<rparr> in
      if \<not> list_all alloc [0..<len] then Some (Inr (- 1, r))
      else
        (case insert_all malloc name [0..<len] (rn_ring r) of
           Inl e \<Rightarrow> Some (Inl e)
         | Inr rg \<Rightarrow>
             map_option (\<lambda>x. rbind x (\<lambda>r1. Inr (0, r1))) (sched_loop resume (r\<lparr>rn_ring := rg\<rparr>))))"

section \<open>Tasks leave the links alone\<close>

definition same_links :: "ring_heap \<Rightarrow> ring_heap \<Rightarrow> bool" where
  "same_links h h' \<longleftrightarrow>
     (\<forall>a. map_option (\<lambda>n. (nd_prev n, nd_next n, nd_ctx n)) (h' a) = map_option (\<lambda>n. (nd_prev n, nd_next n, nd_ctx n)) (h a))"

lemma same_links_refl [simp]: "same_links h h"
  by (simp add: same_links_def)

lemma same_links_of:
  assumes "same_links h h'"
  shows "next_of h' a = next_of h a" "prev_of h' a = prev_of h a" "h' a = None \<longleftrightarrow> h a = None"
    "map_option nd_ctx (h' a) = map_option nd_ctx (h a)"
proof -
  have eq: "map_option (\<lambda>n. (nd_prev n, nd_next n, nd_ctx n)) (h' a) = map_option (\<lambda>n. (nd_prev n, nd_next n, nd_ctx n)) (h a)"
    using assms by (simp add: same_links_def)
  show "next_of h' a = next_of h a" "prev_of h' a = prev_of h a" "h' a = None \<longleftrightarrow> h a = None"
    "map_option nd_ctx (h' a) = map_option nd_ctx (h a)"
    using eq by (cases "h a"; cases "h' a"; simp add: next_of_def prev_of_def)+
qed

lemma ring_tasks_links:
  assumes "same_links h h'" "ring_tasks (h, c) ts"
  shows "ring_tasks (h', c) ts"
proof -
  have "chain h' xs" if "chain h xs" for xs
    by (rule chain_cong [OF that]) (simp_all add: same_links_of [OF assms(1)])
  moreover have "dom h' = dom h" using same_links_of(3) [OF assms(1)] by (auto simp: dom_def)
  moreover have "node_is h' = node_is h" using same_links_of(4) [OF assms(1)] by (intro node_is_same) simp
  ultimately show ?thesis using assms(2) by (auto simp: ring_tasks_def ring_def)
qed

text \<open>\<open>suspend\<close> is one that does.\<close>

lemma suspend_links:
  assumes "suspend st = Inr st'"
  shows "same_links (fst (s_ring st)) (fst (s_ring st'))" "snd (s_ring st') = snd (s_ring st)"
  using assms
  by (auto simp: suspend_def set_visited_def current_node_def deref_def rbind_eq_Inr same_links_def
      split: option.splits)

section \<open>Whose turn it is\<close>

lemma ring_current:
  assumes "ring_tasks s (c # ys)"
  shows "snd s = Some (tk_addr c)" "\<exists>n. fst s (tk_addr c) = Some n \<and> nd_ctx n = tk_ctx c"
  using assms by (auto simp: ring_tasks_def ring_def node_is_def split: option.splits)

lemma ring_over: "ring_tasks s [] \<Longrightarrow> snd s = None"
  by (auto simp: ring_tasks_def ring_def split: option.splits)

lemma turn_suspends:
  assumes "ring_tasks (rn_ring r) (c # ys)" "same_links (fst (rn_ring r)) h"
    and "resume (tk_ctx c) (fst (rn_ring r)) (rn_world r) = Inr (None, h, w)"
  shows "\<exists>r'. sched_turn resume (tk_addr c) r = Inr r' \<and> ring_tasks (rn_ring r') (ys @ [c])
    \<and> rn_world r' = w \<and> rn_result r' = rn_result r"
proof -
  have "ring_tasks (h, snd (rn_ring r)) (c # ys)"
    using ring_tasks_links [OF assms(2)] assms(1) by (metis prod.collapse)
  then obtain s where "advance (h, snd (rn_ring r)) = Inr s" "ring_tasks s (ys @ [c])"
    using rr.step_next by blast
  then show ?thesis
    using ring_current [OF assms(1)] assms(3) by (auto simp: sched_turn_def deref_def transfer_def)
qed

text \<open>When a task ends, its node is unlinked, and the loop then advances: the task after it misses a turn.\<close>

lemma turn_ends:
  assumes "ring_tasks (rn_ring r) (c # ys)" "same_links (fst (rn_ring r)) h"
    and "resume (tk_ctx c) (fst (rn_ring r)) (rn_world r) = Inr (Some v, h, w)"
  shows "\<exists>r'. sched_turn resume (tk_addr c) r = Inr r' \<and> ring_tasks (rn_ring r') (rotate1 ys)
    \<and> rn_world r' = w \<and> rn_result r' = (rn_result r)(tk_ctx c := v)"
proof -
  have "ring_tasks (h, snd (rn_ring r)) (c # ys)"
    using ring_tasks_links [OF assms(2)] assms(1) by (metis prod.collapse)
  then obtain s1 where s1: "shrink (h, snd (rn_ring r)) = Inr s1" "ring_tasks s1 ys"
    using rr.drop_next by blast
  have "\<exists>s2. advance s1 = Inr s2 \<and> ring_tasks s2 (rotate1 ys)"
  proof (cases ys)
    case Nil
    then show ?thesis using ring_over [of s1] s1(2) by (cases s1) (auto simp: advance_def)
  next
    case (Cons d zs)
    then show ?thesis using rr.step_next [of s1 d zs] s1(2) by auto
  qed
  then show ?thesis
    using ring_current [OF assms(1)] assms(3) s1
    by (auto simp: sched_turn_def deref_def transfer_def starter_def sus_exit_def)
qed

section \<open>The end\<close>

definition returned :: "'w resume \<Rightarrow> nat \<Rightarrow> int \<Rightarrow> bool" where
  "returned resume i v \<longleftrightarrow> (\<exists>h w h' w'. resume i h w = Inr (Some v, h', w'))"

lemma loop_finishes:
  assumes prog: "\<And>i h w. \<exists>v h' w'. resume i h w = Inr (v, h', w') \<and> same_links h h' \<and> (v = None \<longrightarrow> mu w' < (mu w :: nat))"
    and "ring_tasks (rn_ring r) ts" "distinct (map tk_ctx ts)"
  shows "\<exists>r'. sched_loop resume r = Some (Inr r')
    \<and> (\<forall>i. if i \<in> tk_ctx ` set ts then returned resume i (rn_result r' i) else rn_result r' i = rn_result r i)"
  using assms(2,3)
proof (induction "(ts, r)" arbitrary: ts r
    rule: wf_induct_rule [OF wf_measures [of "[\<lambda>(ts, r). length ts, \<lambda>(ts, r). mu (rn_world r)]"]])
  case (1 ts r)
  show ?case
  proof (cases ts)
    case Nil
    then show ?thesis using ring_over 1(2) by (subst sched_loop.simps) auto
  next
    case (Cons c ys)
    then have rt: "ring_tasks (rn_ring r) (c # ys)" using 1(2) by simp
    obtain v h w where res: "resume (tk_ctx c) (fst (rn_ring r)) (rn_world r) = Inr (v, h, w)"
      "same_links (fst (rn_ring r)) h" "v = None \<longrightarrow> mu w < mu (rn_world r)" using prog by blast
    have go: "sched_loop resume r = sched_loop resume r1" if "sched_turn resume (tk_addr c) r = Inr r1" for r1
      using that ring_current(1) [OF rt] by (subst sched_loop.simps) simp
    show ?thesis
    proof (cases v)
      case None
      then obtain r1 where r1: "sched_turn resume (tk_addr c) r = Inr r1" "ring_tasks (rn_ring r1) (ys @ [c])"
        "rn_world r1 = w" "rn_result r1 = rn_result r"
        using turn_suspends [OF rt res(2), of resume w] res(1) by blast
      have "((ys @ [c], r1), (ts, r)) \<in> measures [\<lambda>(ts, r). length ts, \<lambda>(ts, r). mu (rn_world r)]"
        using Cons None res(3) r1(3) by simp
      from "1.hyps" [OF this r1(2)] obtain r' where "sched_loop resume r1 = Some (Inr r')"
        "\<forall>i. if i \<in> tk_ctx ` set (ys @ [c]) then returned resume i (rn_result r' i) else rn_result r' i = rn_result r1 i"
        using 1(3) Cons by auto
      then show ?thesis using go [OF r1(1)] r1(4) Cons by simp
    next
      case (Some x)
      then obtain r1 where r1: "sched_turn resume (tk_addr c) r = Inr r1" "ring_tasks (rn_ring r1) (rotate1 ys)"
        "rn_world r1 = w" "rn_result r1 = (rn_result r)(tk_ctx c := x)"
        using turn_ends [OF rt res(2), of resume x w] res(1) by blast
      have "((rotate1 ys, r1), (ts, r)) \<in> measures [\<lambda>(ts, r). length ts, \<lambda>(ts, r). mu (rn_world r)]"
        using Cons by simp
      from "1.hyps" [OF this r1(2)] obtain r' where r': "sched_loop resume r1 = Some (Inr r')"
        "\<forall>i. if i \<in> tk_ctx ` set (rotate1 ys) then returned resume i (rn_result r' i) else rn_result r' i = rn_result r1 i"
        using 1(3) Cons by (auto simp: rotate1_map [symmetric])
      have "returned resume (tk_ctx c) x" using res(1) Some by (auto simp: returned_def)
      moreover have "tk_ctx c \<notin> tk_ctx ` set ys" using 1(3) Cons by auto
      ultimately show ?thesis using go [OF r1(1)] r1(4) r' Cons by (auto split: if_splits)
    qed
  qed
qed

definition task_of :: "(nat \<Rightarrow> addr option) \<Rightarrow> (nat \<Rightarrow> string) \<Rightarrow> nat \<Rightarrow> ring_task" where
  "task_of malloc name i = \<lparr>tk_addr = the (malloc i), tk_ctx = i, tk_name = name i\<rparr>"

lemma insert_all_tasks:
  "\<forall>i \<in> set is. malloc i \<noteq> None \<Longrightarrow> insert_all malloc name is s = rr.add_all (map (task_of malloc name) is) s"
  by (induction "is" arbitrary: s) (auto simp: task_of_def add_task_def intro: rbind_cong)

text \<open>After registration the task registered last is the first to run, and then the others in order.\<close>

lemma insert_all_order:
  assumes "\<forall>i < len. malloc i \<noteq> None \<and> h (the (malloc i)) = None" "inj_on malloc {..<len}" "0 < len"
  shows "\<exists>rg. insert_all malloc name [0..<len] (h, None) = Inr rg
    \<and> ring_tasks rg (map (task_of malloc name) ((len - 1) # [0..<len - 1]))"
proof -
  let ?ts = "map (task_of malloc name) [0..<len]"
  have "inj_on (\<lambda>i. the (malloc i)) {..<len}"
  proof (rule inj_onI)
    fix i j assume ij: "i \<in> {..<len}" "j \<in> {..<len}" "the (malloc i) = the (malloc j)"
    then have "malloc i = malloc j" using assms(1) option.expand by (metis lessThan_iff)
    then show "i = j" using inj_onD [OF assms(2)] ij by blast
  qed
  then have "distinct (map tk_addr ?ts)"
    by (simp add: distinct_map comp_def task_of_def inj_on_def)
  moreover have "\<forall>t \<in> set ?ts. fresh_task t (h, None)" using assms(1) by (auto simp: fresh_task_def task_of_def)
  moreover have "ring_tasks (h, None) []" by (simp add: ring_tasks_def ring_def)
  ultimately obtain rg where "rr.add_all ?ts (h, None) = Inr rg" "ring_tasks rg (last ?ts # butlast ?ts)"
    using rr.add_all_order [of "(h, None)" ?ts] assms(3) by auto
  moreover have "last ?ts = task_of malloc name (len - 1)" "butlast ?ts = map (task_of malloc name) [0..<len - 1]"
    using assms(3) by (cases len; simp)+
  ultimately show ?thesis
    using insert_all_tasks [of "[0..<len]" malloc name "(h, None)"] assms(1) by auto
qed

lemma sus_runall_ends:
  assumes "\<And>i h w. \<exists>v h' w'. resume i h w = Inr (v, h', w') \<and> same_links h h' \<and> (v = None \<longrightarrow> mu w' < (mu w :: nat))"
    and "\<forall>i < len. malloc i \<noteq> None \<and> h (the (malloc i)) = None" "inj_on malloc {..<len}" "0 < len"
  shows "if list_all alloc [0..<len]
    then \<exists>r. sus_runall alloc malloc name resume len h w = Some (Inr (0, r))
      \<and> (\<forall>i < len. returned resume i (rn_result r i))
    else \<exists>r. sus_runall alloc malloc name resume len h w = Some (Inr (- 1, r)) \<and> rn_world r = w"
proof (cases "list_all alloc [0..<len]")
  case True
  obtain rg where rg: "insert_all malloc name [0..<len] (h, None) = Inr rg"
    "ring_tasks rg (map (task_of malloc name) ((len - 1) # [0..<len - 1]))"
    using insert_all_order [OF assms(2-4)] by blast
  let ?r = "\<lparr>rn_ring = rg, rn_result = (\<lambda>_. 0), rn_world = w\<rparr>" and ?ts = "map (task_of malloc name) ((len - 1) # [0..<len - 1])"
  have ctx: "map tk_ctx ?ts = (len - 1) # [0..<len - 1]" by (simp add: comp_def task_of_def)
  have "tk_ctx ` set ?ts = {..<len}" using assms(4) unfolding set_map [symmetric] ctx by auto
  moreover have "distinct (map tk_ctx ?ts)" unfolding ctx by simp
  moreover have "ring_tasks (rn_ring ?r) ?ts" using rg(2) by simp
  ultimately obtain r' where "sched_loop resume ?r = Some (Inr r')" "\<forall>i < len. returned resume i (rn_result r' i)"
    using loop_finishes [where resume = resume and r = ?r and ts = ?ts and mu = mu, OF assms(1)] by (metis lessThan_iff)
  then show ?thesis using True rg(1) by (simp add: sus_runall_def Let_def)
qed (simp add: sus_runall_def Let_def)

text \<open>
  C10. \<open>sus_runall\<close> ends and returns 0 with the result of every task in its registration form, whenever no task
  can suspend for ever (there is a measure that every resumption decreases in which the task does not
  return) and memory suffices. When a stack cannot be allocated it returns -1 and runs nothing.
\<close>

theorem runall_finishes:
  assumes "\<And>i h w. \<exists>v h' w'. resume i h w = Inr (v, h', w') \<and> same_links h h' \<and> (v = None \<longrightarrow> mu w' < (mu w :: nat))"
    and "\<forall>i < len. malloc i \<noteq> None \<and> h (the (malloc i)) = None" "inj_on malloc {..<len}" "0 < len"
  shows "if list_all alloc [0..<len]
    then \<exists>r. sus_runall alloc malloc name resume len h w = Some (Inr (0, r))
      \<and> (\<forall>i < len. returned resume i (rn_result r i))
    else \<exists>r. sus_runall alloc malloc name resume len h w = Some (Inr (- 1, r)) \<and> rn_world r = w"
  by (rule sus_runall_ends [OF assms])

text \<open>Two tasks that count down a shared number and return their own.\<close>

definition countdown :: "nat resume" where
  "countdown i h w = Inr (if w = 0 then Some (int i) else None, h, w - 1)"

theorem runall_witness:
  "\<exists>r. sus_runall (\<lambda>_. True) (\<lambda>i. Some (100 + i)) (\<lambda>_. ''task'') countdown 2 Map.empty 5 = Some (Inr (0, r))
     \<and> rn_result r 1 = 1"
proof -
  have "\<exists>v h' w'. countdown i h w = Inr (v, h', w') \<and> same_links h h' \<and> (v = None \<longrightarrow> w' < w)" for i h w
    by (simp add: countdown_def)
  from runall_finishes [where mu = "\<lambda>w. w" and resume = countdown and len = 2 and malloc = "\<lambda>i. Some (100 + i)" and h = Map.empty
      and alloc = "\<lambda>_. True" and name = "\<lambda>_. ''task''" and w = 5, OF this]
  obtain r where r: "sus_runall (\<lambda>_. True) (\<lambda>i. Some (100 + i)) (\<lambda>_. ''task'') countdown 2 Map.empty 5 = Some (Inr (0, r))"
    "\<forall>i < 2. returned countdown i (rn_result r i)"
    by (auto simp: inj_on_def list_all_iff)
  then have "returned countdown 1 (rn_result r 1)" by simp
  then have "rn_result r 1 = 1" by (auto simp: returned_def countdown_def split: if_splits)
  then show ?thesis using r(1) by blast
qed

text \<open>
  C19. The task after one that ends misses its turn. \<open>sus_exit\<close> already makes it the current one, and the
  loop of \<open>sus_runall\<close> then goes on to the next: the task after it is resumed first, and the one that was
  passed over waits until all the others had their turn. With only one task left after the one that ends
  nothing is lost.
\<close>

theorem end_skips_next:
  assumes "ring_tasks (rn_ring r) (c # d # ys)" "same_links (fst (rn_ring r)) h"
    and "resume (tk_ctx c) (fst (rn_ring r)) (rn_world r) = Inr (Some v, h, w)"
  shows "\<exists>r1. sched_turn resume (tk_addr c) r = Inr r1 \<and> rn_world r1 = w \<and> rn_result r1 = (rn_result r)(tk_ctx c := v)
    \<and> ring_tasks (rn_ring r1) (ys @ [d]) \<and> sched_loop resume r =
        (case sched_turn resume (tk_addr (hd (ys @ [d]))) r1 of Inl e \<Rightarrow> Some (Inl e) | Inr r2 \<Rightarrow> sched_loop resume r2)"
proof -
  obtain r1 where r1: "sched_turn resume (tk_addr c) r = Inr r1" "ring_tasks (rn_ring r1) (ys @ [d])" "rn_world r1 = w"
    "rn_result r1 = (rn_result r)(tk_ctx c := v)"
    using turn_ends [OF assms(1,2), of resume v w] assms(3) by auto
  have "snd (rn_ring r1) = Some (tk_addr (hd (ys @ [d])))"
    using ring_current(1) [of "rn_ring r1" "hd (ys @ [d])" "tl (ys @ [d])"] r1(2) by simp
  then have "sched_loop resume r1 =
      (case sched_turn resume (tk_addr (hd (ys @ [d]))) r1 of Inl e \<Rightarrow> Some (Inl e) | Inr r2 \<Rightarrow> sched_loop resume r2)"
    by (subst sched_loop.simps) simp
  moreover have "sched_loop resume r = sched_loop resume r1"
    using ring_current(1) [OF assms(1)] r1(1) by (subst sched_loop.simps) simp
  ultimately show ?thesis using r1 by metis
qed

text \<open>Three tasks, of which the first to run ends at once: after it comes not the second but the third.\<close>

definition three_tasks :: "nat run" where
  "three_tasks = \<lparr>rn_ring = ([1 \<mapsto> \<lparr>nd_prev = 3, nd_next = 2, nd_ctx = 10, nd_visited = 0, nd_name = ''a''\<rparr>,
     2 \<mapsto> \<lparr>nd_prev = 1, nd_next = 3, nd_ctx = 20, nd_visited = 0, nd_name = ''b''\<rparr>,
     3 \<mapsto> \<lparr>nd_prev = 2, nd_next = 1, nd_ctx = 30, nd_visited = 0, nd_name = ''c''\<rparr>], Some 1),
     rn_result = (\<lambda>_. 0), rn_world = 0\<rparr>"

definition ring_entry :: "addr \<Rightarrow> ring_task" where
  "ring_entry a = \<lparr>tk_addr = a, tk_ctx = 10 * a, tk_name = []\<rparr>"

lemma three_tasks_ring: "ring_tasks (rn_ring three_tasks) [ring_entry 1, ring_entry 2, ring_entry 3]"
  by (simp add: ring_tasks_def ring_def three_tasks_def next_of_def prev_of_def node_is_def ring_entry_def)

theorem end_skips_next_witness:
  "\<exists>r1. sched_turn countdown 1 three_tasks = Inr r1 \<and> snd (rn_ring r1) = Some 3 \<and> rn_result r1 10 = 10"
proof -
  have "countdown (tk_ctx (ring_entry 1)) (fst (rn_ring three_tasks)) (rn_world three_tasks) =
      Inr (Some 10, fst (rn_ring three_tasks), 0)"
    by (simp add: countdown_def three_tasks_def ring_entry_def)
  from end_skips_next [where resume = countdown, OF three_tasks_ring same_links_refl this]
  obtain r1 where r1: "sched_turn countdown (tk_addr (ring_entry 1)) three_tasks = Inr r1"
    "ring_tasks (rn_ring r1) ([ring_entry 3] @ [ring_entry 2])" "rn_result r1 = (rn_result three_tasks)(tk_ctx (ring_entry 1) := 10)"
    by blast
  then show ?thesis using ring_current(1) [of "rn_ring r1"] by (auto simp: ring_entry_def)
qed

end
