(* ===== verification/Startup.thy ===== *)
theory Startup
  imports Logging Utils Scheduler
begin

text \<open>
  The start of the multitasking program: \<open>main.c\<close>, the UCSPI environment of \<open>ucspi.c\<close>, and the small
  tasks \<open>sighandler.c\<close>, \<open>controller.c\<close> and \<open>s6notify.c\<close>.
\<close>

section \<open>The environment\<close>

text \<open>
  \<open>getenvfx\<close> composes the name in a buffer of \<open>sz\<close> bytes and trims the value where it is, in the
  string \<open>NAME=value\<close> of the environment. (Every variable is read once.)
\<close>

type_synonym environment = "byte list \<Rightarrow> byte list option"

definition trimmed_value :: "byte list \<Rightarrow> byte list \<Rightarrow> byte list outcome" where
  "trimmed_value name v =
     rbind (trim_whitespaces (name @ 0x3D # v @ [0]) (length name + 1)) (\<lambda>(mem, p). Inr (cstr (drop p mem)))"

definition getenvfx :: "environment \<Rightarrow> nat \<Rightarrow> byte list \<Rightarrow> byte list option outcome" where
  "getenvfx env sz name =
     rbind (snprintfx sz (zeros sz) 0 name) (\<lambda>(buf, _).
       case env (cstr buf) of None \<Rightarrow> Inr None | Some v \<Rightarrow> rbind (trimmed_value (cstr buf) v) (\<lambda>w. Inr (Some w)))"

section \<open>ucspi.c\<close>

text \<open>
  \<open>p += snprintfx(p, buf + sizeof buf - p, ...)\<close> for one piece of text after the other.
\<close>

fun print_pieces :: "byte list \<Rightarrow> nat \<Rightarrow> byte list list \<Rightarrow> (byte list \<times> nat) outcome" where
  "print_pieces buf p [] = Inr (buf, p)"
| "print_pieces buf p (w # ws) =
     rbind (snprintfx (length buf - p) buf p w) (\<lambda>(buf', n). print_pieces buf' (p + n) ws)"

definition printed :: "nat \<Rightarrow> byte list list \<Rightarrow> byte list outcome" where
  "printed sz ws = rbind (print_pieces (zeros sz) 0 ws) (\<lambda>(buf, _). Inr (cstr buf))"

text \<open>What is known of one end of the connection: host, address, port and further information.\<close>

type_synonym endpoint = "byte list option \<times> byte list option \<times> byte list option \<times> byte list option"

definition read_endpoint :: "environment \<Rightarrow> nat \<Rightarrow> byte list \<Rightarrow> byte list \<Rightarrow> endpoint outcome" where
  "read_endpoint env sz proto side =
     rbind (getenvfx env sz (proto @ side @ lit ''HOST'')) (\<lambda>host.
     rbind (getenvfx env sz (proto @ side @ lit ''IP'')) (\<lambda>ip.
     rbind (getenvfx env sz (proto @ side @ lit ''PORT'')) (\<lambda>port.
     rbind (getenvfx env sz (proto @ side @ lit ''INFO'')) (\<lambda>info.
       Inr (host, ip, port, info)))))"

definition endpoint_pieces :: "byte list option \<Rightarrow> endpoint \<Rightarrow> byte list list" where
  "endpoint_pieces connnum ep =
     (case ep of (host, ip, port, info) \<Rightarrow>
        (case connnum of Some n \<Rightarrow> [lit '' #'' @ n] | None \<Rightarrow> [])
      @ (case host of Some h \<Rightarrow> [[0x20, 0x22] @ h @ [0x22]] | None \<Rightarrow> [])
      @ (case (ip, port) of (Some i, Some p) \<Rightarrow> [lit '' ('' @ i @ lit '':'' @ p @ lit '')''] | _ \<Rightarrow> [])
      @ (case info of Some i \<Rightarrow> [lit '' ['' @ i @ lit '']''] | None \<Rightarrow> []))"

definition endpoint_line :: "byte list \<Rightarrow> byte list option \<Rightarrow> endpoint \<Rightarrow> byte list list outcome" where
  "endpoint_line side connnum ep =
     (if ep = (None, None, None, None) then Inr []
      else rbind (printed 1024 ((side @ lit '':'') # endpoint_pieces connnum ep)) (\<lambda>l. Inr [l]))"

text \<open>A null pointer printed with \<open>%s\<close> is a read outside any object.\<close>

definition text_of :: "byte list option \<Rightarrow> byte list outcome" where
  "text_of v = (case v of None \<Rightarrow> Inl Out_Of_Bounds_Read | Some w \<Rightarrow> Inr w)"

definition tls_lines :: "environment \<Rightarrow> bool \<Rightarrow> byte list list outcome" where
  "tls_lines env server =
     (case env (lit ''SSL_PROTOCOL'') of
        None \<Rightarrow> Inr []
      | Some prot \<Rightarrow>
          rbind (text_of (env (lit ''SSL_CIPHER''))) (\<lambda>cipher.
          rbind (printed 1024 ((prot @ lit '': '' @ cipher) #
            (case env (lit ''SSL_TLS_SNI_SERVERNAME'') of Some n \<Rightarrow> [[0x20, 0x22] @ n @ [0x22]] | None \<Rightarrow> []))) (\<lambda>l1.
          if server then Inr [l1]
          else
            rbind (text_of (env (lit ''SSL_PEER_CERT_HASH''))) (\<lambda>hash.
            rbind (text_of (env (lit ''SSL_PEER_CERT_SUBJECT''))) (\<lambda>subj.
            rbind (printed 1024 [lit ''HASH:'' @ hash @ lit '' SUBJ: '' @ subj]) (\<lambda>l2.
              Inr [l1, l2]))))))"

text \<open>The messages logged, in order.\<close>

definition ucspi_log :: "environment \<Rightarrow> byte list \<Rightarrow> byte list option \<Rightarrow> byte list list outcome" where
  "ucspi_log env proto connnum =
     rbind (read_endpoint env 1024 proto (lit ''REMOTE'')) (\<lambda>remote.
     rbind (read_endpoint env 1024 proto (lit ''LOCAL'')) (\<lambda>local.
     rbind (endpoint_line (lit ''REMOTE'') connnum remote) (\<lambda>l1.
     rbind (endpoint_line (lit ''LOCAL'') None local) (\<lambda>l2.
     rbind (tls_lines env (connnum \<noteq> None)) (\<lambda>l3.
       Inr ((lit ''UCSPI-'' @ proto @ lit '' compatible environment detected (''
         @ (if connnum = None then lit ''client'' else lit ''server'') @ lit '')'') # l1 @ l2 @ l3))))))"

text \<open>The two descriptors are given and returned in the order of the parameters, \<open>in\<close> first.\<close>

definition ucspi_adjust :: "environment \<Rightarrow> byte list \<Rightarrow> int \<times> int \<Rightarrow> (byte list option \<times> int \<times> int) outcome" where
  "ucspi_adjust env proto fds =
     rbind (getenvfx env 16 (proto @ lit ''CONNNUM'')) (\<lambda>connnum.
       Inr (connnum, if connnum = None then (7, 6) else fds))"

definition ucsp_info_and_adjust_fds :: "environment \<Rightarrow> int \<times> int \<Rightarrow> (byte list list \<times> int \<times> int) outcome" where
  "ucsp_info_and_adjust_fds env fds =
     (case env (lit ''PROTO'') of
        None \<Rightarrow> Inr ([], fds)
      | Some proto \<Rightarrow>
          rbind (ucspi_adjust env proto fds) (\<lambda>(connnum, fds').
          rbind (ucspi_log env proto connnum) (\<lambda>ls. Inr (ls, fds'))))"

section \<open>The small tasks\<close>

text \<open>\<open>s6_notify\<close>: \<open>write\<close> and \<open>close\<close> are the kernel's answers.\<close>

definition s6_notify :: "int \<Rightarrow> int \<Rightarrow> int \<Rightarrow> int outcome" where
  "s6_notify fd wr cl = (if fd > 0 \<and> (wr \<noteq> 1 \<or> cl \<noteq> 0) then Inl Exited else Inr 0)"

definition controller :: int where
  "controller = 0"

definition SIGINT :: nat where "SIGINT = 2"
definition SIGPWR :: nat where "SIGPWR = 30"

text \<open>The signals that are blocked and the descriptor they are read from.\<close>

definition create_signalfd :: "int \<Rightarrow> int \<Rightarrow> (nat set \<times> int) outcome" where
  "create_signalfd procmask sfd =
     rbind (syscall_exitf procmask) (\<lambda>_. rbind (syscall_exitf sfd) (\<lambda>fd. Inr ({SIGPWR, SIGINT}, fd)))"

text \<open>
  The loop over the signals read, each with the number of bytes that came: the messages logged and
  the result, or \<open>None\<close> while it waits for more.
\<close>

definition signal_message :: "(nat \<Rightarrow> byte list) \<Rightarrow> nat \<Rightarrow> byte list" where
  "signal_message strsignal signo = lit ''signal: '' @ strsignal signo"

fun sighandler :: "(nat \<Rightarrow> byte list) \<Rightarrow> (int \<times> nat) list \<Rightarrow> byte list list \<times> int option" where
  "sighandler strsignal [] = ([], None)"
| "sighandler strsignal ((n, signo) # rs) =
     (if n = 128 then apfst ((#) (signal_message strsignal signo)) (sighandler strsignal rs) else ([], Some (- 1)))"

section \<open>main.c\<close>

text \<open>Soft and hard limit before, and the soft limit after; an error aborts.\<close>

definition adjust_rlimit :: "(int \<times> int) option \<Rightarrow> bool \<Rightarrow> int outcome" where
  "adjust_rlimit getrlimit setrlimit_ok =
     (case getrlimit of
        None \<Rightarrow> Inl Aborted
      | Some (cur, _) \<Rightarrow>
          if cur > FD_SETSIZE then (if setrlimit_ok then Inr FD_SETSIZE else Inl Aborted) else Inr cur)"

definition atoi :: "byte list \<Rightarrow> int" where
  "atoi w =
     (let v = dropWhile is_space w;
          neg = (v \<noteq> [] \<and> hd v = 0x2D);
          ds = takeWhile is_digit (if v \<noteq> [] \<and> (hd v = 0x2D \<or> hd v = 0x2B) then tl v else v);
          n = int (of_digits 10 decval ds)
      in if neg then - n else n)"

text \<open>The table of tasks with their arguments.\<close>

datatype task =
    Wireformat int
  | Frontend_Foreign
  | Frontend_Timer
  | Autoresponder_Task "byte list" nat int
  | Sighandler
  | S6_Notify int
  | Controller
  | Ioloop int

definition task_table :: "int \<Rightarrow> int \<Rightarrow> byte list \<Rightarrow> byte list \<Rightarrow> task list" where
  "task_table fd_fi_main fd_fo_main d5_path timeout =
     [Wireformat fd_fi_main, Frontend_Foreign, Frontend_Timer, Autoresponder_Task d5_path 1 fd_fo_main,
      Sighandler, S6_Notify (- 1), Controller, Ioloop (atoi timeout)]"

primrec task_name :: "task \<Rightarrow> string" where
  "task_name (Wireformat _) = ''fsm_wireformat''"
| "task_name Frontend_Foreign = ''fsm_frontend_foreign''"
| "task_name Frontend_Timer = ''fsm_frontend_timer''"
| "task_name (Autoresponder_Task _ _ _) = ''autoresponder''"
| "task_name Sighandler = ''sighandler''"
| "task_name (S6_Notify _) = ''s6_notify''"
| "task_name Controller = ''controller''"
| "task_name (Ioloop _) = ''sus_ioloop''"

definition exit_code :: "(nat \<Rightarrow> int) \<Rightarrow> nat \<Rightarrow> int" where
  "exit_code result len = (if \<exists>i \<in> {0..<len}. result i \<noteq> 0 then 100 else 0)"

text \<open>
  \<open>main\<close> up to the call of \<open>sus_runall\<close>, from the arguments, with the program's name, and what the
  kernel answers: the number to return at once, or the tasks to run.
\<close>

record platform =
  pf_env :: environment
  pf_getrlimit :: "(int \<times> int) option"
  pf_setrlimit_ok :: bool

definition main_tasks :: "platform \<Rightarrow> byte list list \<Rightarrow> task list outcome" where
  "main_tasks pf av =
     rbind (adjust_rlimit (pf_getrlimit pf) (pf_setrlimit_ok pf)) (\<lambda>_.
     rbind (ucsp_info_and_adjust_fds (pf_env pf) (1, 0)) (\<lambda>(_, fd_fo_main, fd_fi_main).
       Inr (task_table fd_fi_main fd_fo_main (av ! 2) (av ! 1))))"

definition main_begin :: "platform \<Rightarrow> byte list list \<Rightarrow> (int + task list) outcome" where
  "main_begin pf av =
     (if length av \<noteq> 3 then Inr (Inl 1) else rbind (main_tasks pf av) (\<lambda>ts. Inr (Inr ts)))"

text \<open>\<open>main\<close> after it: what \<open>sus_runall\<close> returned and the results it left in the forms of the tasks.\<close>

definition main_end :: "int \<Rightarrow> (nat \<Rightarrow> int) \<Rightarrow> nat \<Rightarrow> int outcome" where
  "main_end ret result len = (if ret \<noteq> 0 then Inl Exited else Inr (exit_code result len))"

end
