(* ===== verification/Startup_Facts.thy ===== *)
theory Startup_Facts
  imports Startup Utils_Facts Pipeline
begin

text \<open>
  What the start of the multitasking program does with its environment, and how it ends.
\<close>

section \<open>Trimming a value in the environment\<close>

lemma trim_back_below_text:
  assumes "i \<le> n" "\<not> is_space (mem ! i)" "n < length mem" "n < p"
  shows "\<exists>mem'. trim_back mem p (int n) = Inr mem' \<and> drop p mem' = drop p mem"
  using assms
proof (induction n arbitrary: mem)
  case 0
  then show ?case by (subst trim_back.simps) auto
next
  case (Suc n)
  show ?case
  proof (cases "is_space (mem ! Suc n)")
    case True
    then have "i \<le> n" using Suc.prems(1,2) by (metis le_SucE)
    then have "\<exists>mem'. trim_back (mem[Suc n := 0]) p (int n) = Inr mem' \<and> drop p mem' = drop p (mem[Suc n := 0])"
      using Suc.prems by (intro Suc.IH) auto
    moreover have "drop p (mem[Suc n := 0]) = drop p mem" using Suc.prems(4) by simp
    moreover have "nat (1 + int n) = Suc n" "1 + int n \<noteq> int p" using Suc.prems(4) by simp_all
    ultimately show ?thesis using True Suc.prems(3) by (subst trim_back.simps) simp
  next
    case False
    have "nat (1 + int n) = Suc n" by simp
    then show ?thesis using False Suc.prems by (subst trim_back.simps) auto
  qed
qed

definition strip :: "byte list \<Rightarrow> byte list" where
  "strip v = rev (dropWhile is_space (rev (dropWhile is_space v)))"

lemma trim_cases:
  obtains "list_all is_space v"
  | l c u r where "v = l @ (c # u) @ r" "list_all is_space l" "list_all is_space r" "\<not> is_space c"
    "\<not> is_space (last (c # u))" "strip v = c # u"
proof (cases "list_all is_space v")
  case False
  define w where "w = dropWhile is_space v"
  define x where "x = rev (dropWhile is_space (rev w))"
  have w: "v = takeWhile is_space v @ w" "w \<noteq> []" "\<not> is_space (hd w)"
    using False hd_dropWhile [of is_space v] by (auto simp: w_def list_all_iff dropWhile_eq_Nil_conv)
  have r: "w = x @ rev (takeWhile is_space (rev w))"
    unfolding x_def by (metis rev_append rev_rev_ident takeWhile_dropWhile_id)
  have "\<exists>b \<in> set (rev w). \<not> is_space b" using w by (metis hd_in_set set_rev)
  then have x: "x \<noteq> []" "\<not> is_space (last x)"
    using hd_dropWhile [of is_space "rev w"] by (auto simp: x_def dropWhile_eq_Nil_conv last_rev)
  then obtain c u where cu: "x = c # u" by (cases x) auto
  have "\<not> is_space c" using r w(3) cu by (metis append_Cons list.sel(1))
  moreover have "list_all is_space (takeWhile is_space v)" "list_all is_space (rev (takeWhile is_space (rev w)))"
    by (auto simp: list_all_iff dest: set_takeWhileD)
  moreover have "v = takeWhile is_space v @ (c # u) @ rev (takeWhile is_space (rev w))" using w(1) r cu by simp
  moreover have "strip v = c # u" by (simp add: strip_def flip: w_def x_def cu)
  ultimately show thesis using that(2) x(2) cu by blast
qed (rule that(1))

text \<open>The value of a variable, when it is taken from the environment, never runs out of its string.\<close>

lemma trimmed_value_strip:
  assumes "0 \<notin> set v"
  shows "trimmed_value name v = Inr (strip v)"
proof (cases v rule: trim_cases)
  case 1
  let ?mem = "name @ 0x3D # v @ [0]" and ?p = "length name + 1 + length v"
  have sp: "skip_spaces ?mem (length name + 1) = Inr ?p"
    using skip_spaces_run [of "length name + 1" ?mem v 0 "[]"] 1 zero_no_space by simp
  have len: "strlen ?mem ?p = Inr 0" using strlen_text [of ?p ?mem "[]" "[]"] by simp
  have "\<exists>mem'. trim_back ?mem ?p (int (length name + length v)) = Inr mem' \<and> drop ?p mem' = drop ?p ?mem"
    by (rule trim_back_below_text [of "length name"]) (simp_all add: nth_append is_space_def)
  then obtain mem' where mem': "trim_back ?mem ?p (int ?p + int 0 - 1) = Inr mem'" "drop ?p mem' = [0]" by auto
  have "dropWhile is_space v = []" using 1 unfolding list_all_iff dropWhile_eq_Nil_conv .
  then have "strip v = []" by (simp only: strip_def rev.simps dropWhile.simps)
  then show ?thesis using sp len mem' by (simp add: trimmed_value_def trim_whitespaces_def cstr_def)
next
  case (2 l c u r)
  have z: "0 \<notin> set (c # u)" using assms 2(1) by auto
  have "trim_whitespaces ((name @ [0x3D]) @ l @ (c # u) @ r @ 0 # []) (length (name @ [0x3D])) =
      Inr ((name @ [0x3D]) @ l @ (c # u) @ replicate (length r + 1) 0 @ [], length ((name @ [0x3D]) @ l))"
    by (rule trim_text [OF refl 2(2,3,4,5) z])
  moreover have "cstr ((c # u) @ replicate (length r + 1) 0) = c # u"
    using cstr_pad [OF z, of "length (c # u) + length r + 1"] by (simp add: pad_def)
  ultimately show ?thesis using 2(1,6) by (simp add: trimmed_value_def)
qed

section \<open>Variables with composed names\<close>

definition env_ok :: "environment \<Rightarrow> bool" where
  "env_ok env \<longleftrightarrow> (\<forall>n v. env n = Some v \<longrightarrow> 0 \<notin> set v)"

lemma snprintfx_zeros:
  "0 < sz \<Longrightarrow> snprintfx sz (zeros sz) 0 w =
    (if length w < sz then Inr (w @ 0 # drop (Suc (length w)) (zeros sz), length w) else Inl Exited)"
  by (simp add: snprintfx_def snprintf_at_def write_at_def)

lemma cstr_end: "0 \<notin> set w \<Longrightarrow> cstr (w @ 0 # rest) = w"
  by (induction w) (auto simp: cstr_def)

lemma getenvfx_eq:
  assumes "env_ok env" "0 \<notin> set name" "0 < sz"
  shows "getenvfx env sz name = (if length name < sz then Inr (map_option strip (env name)) else Inl Exited)"
proof (cases "length name < sz")
  case True
  have "cstr (name @ 0 # drop (Suc (length name)) (zeros sz)) = name"
    by (rule cstr_end [OF assms(2)])
  moreover have "env name = Some v \<Longrightarrow> trimmed_value name v = Inr (strip v)" for v
    using trimmed_value_strip assms(1) by (auto simp: env_ok_def)
  ultimately show ?thesis using True assms(3)
    by (auto simp: getenvfx_def snprintfx_zeros split: option.split)
qed (use assms(3) in \<open>simp add: getenvfx_def snprintfx_zeros\<close>)

lemma lit_no_zero: "0 \<notin> set (lit ''CONNNUM'')"
  by simp

text \<open>
  C36. Which descriptors the UCSPI environment gives: 6 and 7 to a client, the given ones to a server. The name of
  the variable that tells them apart is composed in 16 bytes, so that a protocol name of more than
  eight characters ends the process.
\<close>

theorem ucspi_adjust_exact:
  assumes "env_ok env" "0 \<notin> set proto"
  shows "ucspi_adjust env proto fds =
    (if length proto \<le> 8
     then Inr (map_option strip (env (proto @ lit ''CONNNUM'')), if env (proto @ lit ''CONNNUM'') = None then (7, 6) else fds)
     else Inl Exited)"
proof -
  have "0 \<notin> set (proto @ lit ''CONNNUM'')" using assms(2) lit_no_zero unfolding set_append by blast
  from getenvfx_eq [OF assms(1) this, of 16] show ?thesis
    by (auto simp add: ucspi_adjust_def)
qed

theorem ucspi_adjust_witness:
  "ucspi_adjust (\<lambda>_. None) (lit ''TCP'') (1, 0) = Inr (None, 7, 6)
   \<and> ucspi_adjust (\<lambda>_. None) (lit ''SOMETHING'') (1, 0) = Inl Exited"
  using ucspi_adjust_exact [of "\<lambda>_. None" "lit ''TCP''" "(1, 0)"]
    ucspi_adjust_exact [of "\<lambda>_. None" "lit ''SOMETHING''" "(1, 0)"]
  by (simp add: env_ok_def)

section \<open>The wiring of the tasks\<close>

text \<open>
  C20. As a UCSPI client the program gives descriptor 7, the one for output, to the autoresponder, while
  \<open>fsm_wireformat\<close> reads from the same descriptor 7, whatever it was registered with (6), and the
  frontend writes its acknowledgements to 6, the one for input.
\<close>

theorem client_wiring:
  assumes "main_tasks pf av = Inr ts" "pf_env pf (lit ''PROTO'') = Some proto" "env_ok (pf_env pf)"
    and "pf_env pf (proto @ lit ''CONNNUM'') = None"
  shows "Autoresponder_Task (av ! 2) 1 wire_fd \<in> set ts \<and> Wireformat frontend_fd \<in> set ts \<and> wire_fd \<noteq> frontend_fd"
proof -
  have z: "0 \<notin> set (proto @ lit ''CONNNUM'')"
    using assms(2,3) lit_no_zero unfolding env_ok_def set_append by blast
  have "ucspi_adjust (pf_env pf) proto (1, 0) = Inl Exited \<or> ucspi_adjust (pf_env pf) proto (1, 0) = Inr (None, 7, 6)"
    using getenvfx_eq [OF assms(3) z, of 16] assms(4) by (auto simp: ucspi_adjust_def)
  then show ?thesis
    using assms(1,2)
    by (auto simp: main_tasks_def ucsp_info_and_adjust_fds_def rbind_eq_Inr task_table_def wire_fd_def frontend_fd_def)
qed

text \<open>A platform with a client's environment and limits that leave something to adjust.\<close>

definition sample_platform :: "environment \<Rightarrow> platform" where
  "sample_platform env = \<lparr>pf_env = env, pf_getrlimit = Some (4096, 4096), pf_setrlimit_ok = True\<rparr>"

definition client_env :: environment where
  "client_env n = (if n = lit ''PROTO'' then Some (lit ''TCP'') else None)"

lemma client_env_ok: "env_ok client_env"
  by (simp add: env_ok_def client_env_def)

lemma client_tasks:
  "main_tasks (sample_platform client_env) av = Inr (task_table 6 7 (av ! 2) (av ! 1))"
proof -
  have get: "getenvfx client_env sz name = Inr None"
    if "0 \<notin> set name" "name \<noteq> lit ''PROTO''" "length name < sz" for sz name
    using getenvfx_eq [OF client_env_ok that(1), of sz] that(2,3) by (simp add: client_env_def)
  have "read_endpoint client_env 1024 (lit ''TCP'') side = Inr (None, None, None, None)"
    if "side = lit ''REMOTE'' \<or> side = lit ''LOCAL''" for side
    using that by (auto simp: read_endpoint_def get)
  moreover have "tls_lines client_env b = Inr []" for b by (simp add: tls_lines_def client_env_def)
  ultimately have "\<exists>ls. ucspi_log client_env (lit ''TCP'') None = Inr ls"
    by (simp add: ucspi_log_def endpoint_line_def)
  moreover have "ucspi_adjust client_env (lit ''TCP'') (1, 0) = Inr (None, 7, 6)" by (simp add: ucspi_adjust_def get)
  moreover have "client_env (lit ''PROTO'') = Some (lit ''TCP'')" by (simp add: client_env_def)
  ultimately have "\<exists>ls. ucsp_info_and_adjust_fds client_env (1, 0) = Inr (ls, 7, 6)"
    by (auto simp: ucsp_info_and_adjust_fds_def simp del: lit_simps)
  then show ?thesis
    by (auto simp: main_tasks_def sample_platform_def adjust_rlimit_def FD_SETSIZE_def)
qed

theorem client_wiring_witness:
  "Autoresponder_Task (lit ''d5.txt'') 1 wire_fd
     \<in> set (task_table 6 7 (lit ''d5.txt'') (lit ''5''))"
  using client_wiring [OF client_tasks [of "[lit ''frob'', lit ''5'', lit ''d5.txt'']"], of "lit ''TCP''"] client_env_ok
  by (simp add: sample_platform_def client_env_def)

section \<open>Limits\<close>

text \<open>
  After \<open>adjust_rlimit\<close> every descriptor the kernel gives out, being below the soft limit, can be put
  into a descriptor set: \<open>FD_SET\<close> never stores outside of it.
\<close>

theorem rlimit_protects_fd_set:
  assumes "adjust_rlimit lim ok = Inr cur" "0 \<le> fd" "fd < cur"
  shows "FD_SET fd S = Inr (insert fd S)"
  using assms by (auto simp: adjust_rlimit_def FD_SET_def split: option.splits if_splits)

theorem rlimit_witness: "FD_SET 1023 {} = Inr {1023}"
  using rlimit_protects_fd_set [of "Some (4096, 8192)" True 1024 1023 "{}"]
  by (simp add: adjust_rlimit_def FD_SETSIZE_def)

end
