(* ===== verification/Channels.thy ===== *)
theory Channels
  imports Autoresponder
begin

text \<open>
  The state of the stand-alone daemon \<open>frob.c\<close>: its channels with their buffers, its descriptor sets,
  timers and counters, and the functions that only look at them.
\<close>

section \<open>Channels\<close>

text \<open>The enumerators between \<open>CHANNEL_FIRST\<close> and \<open>CHANNEL_LAST\<close>, in order.\<close>

datatype channel =
    NO_PAYMENT | NO_STORAGE | NO_UI | CO_MASTER | FO_MAIN
  | II_SIGNAL | CI_MASTER | NI_DEVICE | FI_MAIN

primrec channel_index :: "channel \<Rightarrow> nat" where
  "channel_index NO_PAYMENT = 0"
| "channel_index NO_STORAGE = 1"
| "channel_index NO_UI = 2"
| "channel_index CO_MASTER = 3"
| "channel_index FO_MAIN = 4"
| "channel_index II_SIGNAL = 5"
| "channel_index CI_MASTER = 6"
| "channel_index NI_DEVICE = 7"
| "channel_index FI_MAIN = 8"

lemma channel_index_inj: "channel_index a = channel_index b \<longleftrightarrow> a = b"
  by (cases a; cases b) simp_all

instantiation channel :: linorder
begin

definition less_eq_channel :: "channel \<Rightarrow> channel \<Rightarrow> bool" where
  "less_eq_channel a b \<longleftrightarrow> channel_index a \<le> channel_index b"

definition less_channel :: "channel \<Rightarrow> channel \<Rightarrow> bool" where
  "less_channel a b \<longleftrightarrow> channel_index a < channel_index b"

instance
  by standard (auto simp: less_eq_channel_def less_channel_def channel_index_inj)

end

definition all_channels :: "channel list" where
  "all_channels = [NO_PAYMENT, NO_STORAGE, NO_UI, CO_MASTER, FO_MAIN, II_SIGNAL, CI_MASTER, NI_DEVICE, FI_MAIN]"

definition is_input :: "channel \<Rightarrow> bool" where
  "is_input c \<longleftrightarrow> II_SIGNAL \<le> c \<and> c \<le> FI_MAIN"

definition is_output :: "channel \<Rightarrow> bool" where
  "is_output c \<longleftrightarrow> NO_PAYMENT \<le> c \<and> c \<le> FO_MAIN"

definition channel_to_code :: "channel \<Rightarrow> byte" where
  "channel_to_code c =
     (case c of
        NO_PAYMENT \<Rightarrow> 0x50 | NO_STORAGE \<Rightarrow> 0x53 | NO_UI \<Rightarrow> 0x55 | NI_DEVICE \<Rightarrow> 0x44
      | FO_MAIN \<Rightarrow> 0x4D | FI_MAIN \<Rightarrow> 0x4D | CI_MASTER \<Rightarrow> 0x43 | CO_MASTER \<Rightarrow> 0x43 | II_SIGNAL \<Rightarrow> 0x49)"

definition channel_to_string :: "channel \<Rightarrow> string" where
  "channel_to_string c =
     (case c of
        NO_PAYMENT \<Rightarrow> ''PAYMENT (native output)''
      | NO_STORAGE \<Rightarrow> ''STORAGE (native output)''
      | NO_UI \<Rightarrow> ''UI (native output)''
      | NI_DEVICE \<Rightarrow> ''DEVICE (native input)''
      | FO_MAIN \<Rightarrow> ''MAIN (foreign output)''
      | FI_MAIN \<Rightarrow> ''MAIN (foreign input)''
      | CI_MASTER \<Rightarrow> ''MASTER (console input)''
      | CO_MASTER \<Rightarrow> ''MASTER (console output)''
      | II_SIGNAL \<Rightarrow> ''SIGFD (internal input)'')"

lemma channel_partition: "is_input c \<longleftrightarrow> \<not> is_output c"
  by (cases c) (simp_all add: is_input_def is_output_def less_eq_channel_def)

lemma all_channels: "set all_channels = UNIV" "sorted all_channels" "distinct all_channels"
proof -
  have "c \<in> set all_channels" for c by (cases c) (simp_all add: all_channels_def)
  then show "set all_channels = UNIV" by auto
  show "sorted all_channels" "distinct all_channels"
    by (simp_all add: all_channels_def less_eq_channel_def)
qed

section \<open>State\<close>

text \<open>\<open>cur\<close> is an offset into \<open>buf\<close>, which has \<open>IO_BUF_SIZE\<close> bytes.\<close>

definition IO_BUF_SIZE :: nat where "IO_BUF_SIZE = 4096"

record chstate =
  ch_fd :: int
  ch_cur :: nat
  ch_buf :: "byte list"

record fstate =
  fs_eset :: "int set"
  fs_wset :: "int set"
  fs_rset :: "int set"
  fs_ch :: "channel \<Rightarrow> chstate"

text \<open>The unused timeouts of the configuration are left out.\<close>

record frob_config =
  fc_config :: config
  fc_fallback_s2 :: "byte list"

record statistics =
  received_good :: "16 word"
  received_bad_lrc :: "16 word"
  received_bad_parse :: "16 word"
  received_bad_handled :: "16 word"

text \<open>A timer is the number of seconds it was armed with, 0 when it is not running.\<close>

record frob_state =
  fb_cfg :: frob_config
  fb_stats :: statistics
  fb_ack :: bool
  fb_ping :: bool
  fb_pings_left :: "16 word"
  fb_timer_ack :: nat
  fb_timer_ping :: nat
  fb_token :: "32 word"  \<comment> \<open>the static variable of \<open>compute_next_token\<close>\<close>
  fb_fs :: fstate
  fb_maxfd :: int
  fb_timeout_sec :: int

abbreviation chan :: "frob_state \<Rightarrow> channel \<Rightarrow> chstate" where
  "chan s c \<equiv> fs_ch (fb_fs s) c"

definition set_chan :: "channel \<Rightarrow> chstate \<Rightarrow> frob_state \<Rightarrow> frob_state" where
  "set_chan c v s = s\<lparr>fb_fs := (fb_fs s)\<lparr>fs_ch := (fs_ch (fb_fs s))(c := v)\<rparr>\<rparr>"

lemma set_chan_simps [simp]:
  "chan (set_chan c v s) d = (if d = c then v else chan s d)"
  "fs_wset (fb_fs (set_chan c v s)) = fs_wset (fb_fs s)" "fs_rset (fb_fs (set_chan c v s)) = fs_rset (fb_fs s)"
  "fs_eset (fb_fs (set_chan c v s)) = fs_eset (fb_fs s)"
  "fb_ack (set_chan c v s) = fb_ack s" "fb_ping (set_chan c v s) = fb_ping s"
  "fb_cfg (set_chan c v s) = fb_cfg s" "fb_stats (set_chan c v s) = fb_stats s"
  "fb_timer_ack (set_chan c v s) = fb_timer_ack s" "fb_timer_ping (set_chan c v s) = fb_timer_ping s"
  "fb_token (set_chan c v s) = fb_token s"
  by (simp_all add: set_chan_def)

section \<open>Descriptor sets and space\<close>

definition set_wset :: "channel \<Rightarrow> frob_state \<Rightarrow> frob_state outcome" where
  "set_wset c s =
     rbind (FD_SET (ch_fd (chan s c)) (fs_wset (fb_fs s))) (\<lambda>w. Inr (s\<lparr>fb_fs := (fb_fs s)\<lparr>fs_wset := w\<rparr>\<rparr>))"

definition free_space :: "chstate \<Rightarrow> nat outcome" where
  "free_space ch = c_assert (ch_cur ch \<le> IO_BUF_SIZE - 1) (Inr (IO_BUF_SIZE - 1 - ch_cur ch))"

definition used_space :: "chstate \<Rightarrow> nat outcome" where
  "used_space ch = c_assert (ch_cur ch \<le> IO_BUF_SIZE - 1) (Inr (ch_cur ch))"

definition get_max_fd :: "(channel \<Rightarrow> chstate) \<Rightarrow> int" where
  "get_max_fd ch = fold (\<lambda>c m. if m < ch_fd (ch c) then ch_fd (ch c) else m) (tl all_channels) (ch_fd (ch NO_PAYMENT)) + 1"

lemma max_fold: "fold (\<lambda>c m. if m < f c then f c else m) cs (a :: int) \<ge> a \<and>
    (\<forall>c \<in> set cs. f c \<le> fold (\<lambda>c m. if m < f c then f c else m) cs a)"
proof (induction cs arbitrary: a)
  case (Cons c cs)
  show ?case
    using Cons [of "f c"] Cons [of a] by (cases "a < f c") (auto intro: order_trans)
qed simp

lemma get_max_fd_bound: "ch_fd (ch c) < get_max_fd ch"
proof -
  have "c = NO_PAYMENT \<or> c \<in> set (tl all_channels)" by (cases c) (simp_all add: all_channels_def)
  then show ?thesis
    using max_fold [of "ch_fd (ch NO_PAYMENT)" "\<lambda>c. ch_fd (ch c)" "tl all_channels"]
    unfolding get_max_fd_def by fastforce
qed

section \<open>Choosing\<close>

definition choose_destination_from_message :: "frob_msg \<Rightarrow> channel outcome" where
  "choose_destination_from_message msg =
     (let t = hdr_type (msg_header msg); c = t AND FROB_MESSAGE_CHANNEL_MASK in
      if c = FROB_PAYMENT then
        (if t = FROB_S1 then
           (case msg_body msg of
              S1 m \<Rightarrow> Inr (case s1_transaction_type m of TRANSACTION_TYPE_PAYMENT \<Rightarrow> NO_PAYMENT
                                                     | TRANSACTION_TYPE_VOID \<Rightarrow> NO_STORAGE)
            | _ \<Rightarrow> Inl Union_Misread)
         else Inl Assert_Failed)
      else if c = FROB_UI then Inr NO_UI
      else if c = FROB_LOCAL then Inr FO_MAIN
      else Inl Assert_Failed)"

text \<open>What \<open>lockf(fd, F_TLOCK, 0)\<close> answers.\<close>

datatype lock_answer = Locked | Lock_Busy | Lock_Failed

definition choose_destination :: "(int \<Rightarrow> lock_answer) \<Rightarrow> fstate \<Rightarrow> frob_msg \<Rightarrow> channel outcome" where
  "choose_destination lock f msg =
     rbind (choose_destination_from_message msg) (\<lambda>dst.
       if dst \<noteq> FO_MAIN then
         (case lock (ch_fd (fs_ch f dst)) of
            Locked \<Rightarrow> Inr dst
          | Lock_Busy \<Rightarrow> Inr FO_MAIN
          | Lock_Failed \<Rightarrow> Inl Aborted)
       else Inr dst)"

definition choose_hardcoded_response :: "msg_type \<Rightarrow> msg_type outcome" where
  "choose_hardcoded_response t =
     (if t = FROB_T1 then Inr FROB_T2
      else if t = FROB_T3 then Inr FROB_T4
      else if t = FROB_T4 then Inr FROB_T5
      else if t = FROB_D4 then Inr FROB_D5
      else if t = FROB_B1 then Inr FROB_B2
      else if t = FROB_S1 then Inr FROB_S2
      else if t = FROB_K1 then Inr FROB_K0
      else if t = FROB_T2 then Inr FROB_NONE
      else if t = FROB_T5 then Inr FROB_NONE
      else rbind (frob_type_to_string t) (\<lambda>_. Inl Assert_Failed))"

text \<open>The specification does not say what follows the last token.\<close>

definition compute_next_token :: "FrobDeviceType \<Rightarrow> frob_state \<Rightarrow> 32 word \<times> frob_state" where
  "compute_next_token r s =
     (let t = (fb_token s + 1) mod (if r = DEVICE_TYPE_ECR then 10000 else 20000) in (t, s\<lparr>fb_token := t\<rparr>))"

section \<open>Timers\<close>

text \<open>\<open>timer_settime\<close> is taken to succeed; arming a timer that runs fails the assertion.\<close>

definition alarm_set :: "nat \<Rightarrow> nat \<Rightarrow> nat outcome" where
  "alarm_set timer sec = c_assert (sec \<noteq> 0 \<longrightarrow> timer = 0) (Inr sec)"

section \<open>Facts\<close>

lemma next_token_bound:
  "compute_next_token r s = (t, s') \<Longrightarrow> unat t < (if r = DEVICE_TYPE_ECR then 10000 else 20000)"
  by (auto simp: compute_next_token_def Let_def unat_mod split: if_splits)

lemma next_token_header: "compute_next_token r s = (t, s') \<Longrightarrow> unat t < 2 ^ 24"
  using next_token_bound [of r s t s'] by (simp split: if_splits)

text \<open>Which messages a well-formed body can be sent to, and that a busy channel never aborts.\<close>

lemma destination_output:
  "choose_destination lock f msg = Inr c \<Longrightarrow> is_output c"
  by (auto simp: choose_destination_def choose_destination_from_message_def rbind_eq_Inr Let_def is_output_def
      less_eq_channel_def split: if_splits frob_body.splits FrobTransactionType.splits lock_answer.splits)

lemma destination_not_master:
  "choose_destination lock f msg = Inr c \<Longrightarrow> c \<in> {NO_PAYMENT, NO_STORAGE, NO_UI, FO_MAIN}"
  by (auto simp: choose_destination_def choose_destination_from_message_def rbind_eq_Inr Let_def
      split: if_splits frob_body.splits FrobTransactionType.splits lock_answer.splits)

section \<open>Where a received message goes\<close>





end
