(* ===== verification/Commission.thy ===== *)
theory Commission
  imports Channels
begin

text \<open>
  The \<open>commission_*\<close> functions of \<open>frob.c\<close>: queueing bytes on an output channel. All of them append to
  the channel's buffer at its cursor; \<open>appended\<close> says exactly that.
\<close>

section \<open>Queueing\<close>

text \<open>
  A message is copied to a native channel as the bytes of the structure. Their layout is the
  ABI's: \<open>repr\<close> gives them.
\<close>

definition commission_native_message ::
  "(frob_msg \<Rightarrow> byte list) \<Rightarrow> channel \<Rightarrow> frob_msg \<Rightarrow> frob_state \<Rightarrow> (bool \<times> frob_state) outcome" where
  "commission_native_message repr dst msg s =
     c_assert (msg_magic msg = FROB_MAGIC)
     (let ch = chan s dst; n = length (repr msg) in
      rbind (free_space ch) (\<lambda>sp.
      if n \<ge> sp then Inr (False, s)
      else
        rbind (write_at (ch_buf ch) (ch_cur ch) (repr msg)) (\<lambda>buf.
        rbind (set_wset dst (set_chan dst (ch\<lparr>ch_buf := buf\<rparr>) s)) (\<lambda>s1.
          Inr (True, set_chan dst (ch\<lparr>ch_buf := buf, ch_cur := ch_cur ch + n\<rparr>) s1)))))"

text \<open>\<open>STX "%X" FS "%s" ETX "_"\<close>, the last byte then replaced by the checksum.\<close>

definition frame_format :: "32 word \<Rightarrow> byte list \<Rightarrow> byte list" where
  "frame_format t body = STX # print_X (unat t) @ FS # body @ [ETX, 0x5F]"

definition commission_frame_on_main :: "32 word \<Rightarrow> byte list \<Rightarrow> frob_state \<Rightarrow> (bool \<times> frob_state) outcome" where
  "commission_frame_on_main t body s =
     (let ch = chan s FO_MAIN; cur = ch_cur ch in
      rbind (free_space ch) (\<lambda>sp.
      rbind (xsnprintf sp (ch_buf ch) cur (frame_format t body)) (\<lambda>(buf1, ret).
      if ret \<ge> sp then Inr (False, set_chan FO_MAIN (ch\<lparr>ch_buf := buf1\<rparr>) s)
      else
        rbind (calculate_lrc (drop (cur + 1) (take (cur + ret - 1) buf1))) (\<lambda>lrc.
        let buf2 = buf1[cur + ret - 1 := lrc] in
        rbind (set_wset FO_MAIN ((set_chan FO_MAIN (ch\<lparr>ch_buf := buf2\<rparr>) s)\<lparr>fb_ack := True\<rparr>)) (\<lambda>s1.
        c_assert (fst (frob_frame_process buf2 (fresh_fsm cur (cur + sp))) = 0)
        (rbind (parse_message (drop (cur + 1) (take (cur + ret - 2) buf2)) (blank_msg 0)) (\<lambda>(r, _).
           c_assert (r = 0)
           (Inr (True, set_chan FO_MAIN (ch\<lparr>ch_buf := buf2, ch_cur := cur + ret\<rparr>) s1)))))))))"

text \<open>\<open>frob.c\<close> has its own copy of \<open>construct_hardcoded_message_body\<close>.\<close>

definition daemon_hardcoded_body :: "config \<Rightarrow> msg_type \<Rightarrow> frob_body outcome" where
  "daemon_hardcoded_body cfg t =
     (if t \<in> {FROB_T1, FROB_T3, FROB_D4, FROB_P1, FROB_A1, FROB_K1} then
        Inr (if t = FROB_T1 then T1 else if t = FROB_T3 then T3 else if t = FROB_D4 then D4
             else if t = FROB_P1 then P1 else if t = FROB_A1 then A1 else K1)
      else if t = FROB_T2 then Inr (T2 (cfg_info cfg))
      else if t = FROB_B1 then Inr (B1 (cfg_info cfg))
      else if t = FROB_B2 then Inr (B2 (zero_b2\<lparr>b2_info := cfg_info cfg\<rparr>))
      else if t = FROB_T4 then
        Inr (T4 (cfg_supported_versions cfg @ drop (length (cfg_supported_versions cfg)) zero_t4))
      else if t = FROB_T5 then Inr (T5 (info_version (cfg_info cfg)))
      else if t = FROB_D5 then Inr (D5 (cfg_parameters cfg))
      else rbind (frob_type_to_string t) (\<lambda>_. Inl Assert_Failed))"

lemma daemon_hardcoded_body_same: "daemon_hardcoded_body cfg t = construct_hardcoded_message_body cfg t"
  by (auto simp: daemon_hardcoded_body_def construct_hardcoded_message_body_def)

definition hardcoded_message :: "config \<Rightarrow> 32 word \<Rightarrow> msg_type \<Rightarrow> frob_msg outcome" where
  "hardcoded_message cfg t m =
     rbind (daemon_hardcoded_body cfg m) (\<lambda>b.
       Inr \<lparr>msg_magic = FROB_MAGIC, msg_header = \<lparr>hdr_type = m, hdr_token = t\<rparr>, msg_body = b, msg_attr = zero_attr\<rparr>)"

text \<open>\<open>serialize\<close> works on the memory from the cursor on.\<close>

definition commission_hardcoded_message_on_main ::
  "32 word \<Rightarrow> msg_type \<Rightarrow> frob_state \<Rightarrow> (bool \<times> frob_state) outcome" where
  "commission_hardcoded_message_on_main t m s =
     (let ch = chan s FO_MAIN; cur = ch_cur ch in
      rbind (hardcoded_message (fc_config (fb_cfg s)) t m) (\<lambda>response.
      rbind (free_space ch) (\<lambda>sp.
      rbind (serialize sp (drop cur (ch_buf ch)) response) (\<lambda>(w, mem).
      let ch' = ch\<lparr>ch_buf := take cur (ch_buf ch) @ mem\<rparr> in
      if w < 0 then Inr (False, set_chan FO_MAIN ch' s)
      else
        rbind (set_wset FO_MAIN ((set_chan FO_MAIN ch' s)\<lparr>fb_ack := True\<rparr>)) (\<lambda>s1.
          Inr (True, set_chan FO_MAIN (ch'\<lparr>ch_cur := cur + nat w\<rparr>) s1))))))"

definition commission_response ::
  "(frob_msg \<Rightarrow> byte list) \<Rightarrow> (int \<Rightarrow> lock_answer) \<Rightarrow> frob_msg \<Rightarrow> frob_state \<Rightarrow> (bool \<times> frob_state) outcome" where
  "commission_response repr lock msg s =
     rbind (choose_destination lock (fb_fs s) msg) (\<lambda>dst.
     if dst = FO_MAIN then
       (let t = hdr_type (msg_header msg); tok = hdr_token (msg_header msg);
            s1 = (if t = FROB_T2 then s\<lparr>fb_pings_left := fb_pings_left s + 1\<rparr> else s) in
        rbind (choose_hardcoded_response t) (\<lambda>resp.
          if resp = FROB_NONE then Inr (True, s1)
          else if resp = FROB_S2 then commission_frame_on_main tok (fc_fallback_s2 (fb_cfg s1)) s1
          else commission_hardcoded_message_on_main tok resp s1))
     else commission_native_message repr dst msg s)"

text \<open>\<open>MCOPY\<close> to the cursor of the console channel.\<close>

definition mcopy_to :: "channel \<Rightarrow> byte list \<Rightarrow> frob_state \<Rightarrow> frob_state outcome" where
  "mcopy_to c txt s =
     (let ch = chan s c in
      rbind (write_at (ch_buf ch) (ch_cur ch) txt) (\<lambda>buf.
        Inr (set_chan c (ch\<lparr>ch_buf := buf, ch_cur := ch_cur ch + length txt\<rparr>) s)))"

definition commission_prompt_on_master :: "frob_state \<Rightarrow> frob_state outcome" where
  "commission_prompt_on_master s = rbind (mcopy_to CO_MASTER (lit ''> '') s) (set_wset CO_MASTER)"

definition ping_body :: "byte list" where
  "ping_body = lit ''T1'' @ [FS]"

text \<open>The number returned is 1 when the ping was queued and 0 when it was not.\<close>

definition commission_ping_on_main :: "frob_state \<Rightarrow> (int \<times> frob_state) outcome" where
  "commission_ping_on_main s =
     (if ch_fd (chan s FO_MAIN) < 0 then Inr (0, s)
      else
        (case compute_next_token (device_topo (cfg_parameters (fc_config (fb_cfg s)))) s of (t, s1) \<Rightarrow>
           rbind (commission_frame_on_main t ping_body s1) (\<lambda>(ok, s2).
             if ok then Inr (1, s2\<lparr>fb_ping := True\<rparr>) else Inr (0, s2))))"

definition commission_ack_on_main :: "bool \<Rightarrow> frob_state \<Rightarrow> frob_state outcome" where
  "commission_ack_on_main is_nak s =
     (let ch = chan s FO_MAIN in
      rbind (write_at (ch_buf ch) (ch_cur ch) [if is_nak then NAK else ACK]) (\<lambda>buf.
        set_wset FO_MAIN (set_chan FO_MAIN (ch\<lparr>ch_buf := buf, ch_cur := ch_cur ch + 1\<rparr>) s)))"

section \<open>What queueing means\<close>

text \<open>The channel holds \<open>w\<close> after what it held, is marked for writing, and nothing else moved.\<close>

definition appended :: "channel \<Rightarrow> byte list \<Rightarrow> frob_state \<Rightarrow> frob_state \<Rightarrow> bool" where
  "appended c w s s' \<longleftrightarrow>
     ch_cur (chan s' c) = ch_cur (chan s c) + length w
   \<and> take (ch_cur (chan s' c)) (ch_buf (chan s' c)) = take (ch_cur (chan s c)) (ch_buf (chan s c)) @ w
   \<and> length (ch_buf (chan s' c)) = length (ch_buf (chan s c)) \<and> ch_fd (chan s' c) = ch_fd (chan s c)
   \<and> (\<forall>d. d \<noteq> c \<longrightarrow> chan s' d = chan s d)
   \<and> fs_wset (fb_fs s') = (if w = [] then fs_wset (fb_fs s) else insert (ch_fd (chan s c)) (fs_wset (fb_fs s)))
   \<and> fb_cfg s' = fb_cfg s"

lemma appended_none [simp]: "appended c [] s s"
  by (simp add: appended_def)

lemma appended_trans: "appended c v s s1 \<Longrightarrow> appended c w s1 s2 \<Longrightarrow> appended c (v @ w) s s2"
  by (auto simp: appended_def)

lemma texts_nonempty [simp]: "wire_text m \<noteq> []" "frame_of p \<noteq> []"
  by (simp_all add: wire_text_def frame_of_def)

text \<open>A channel that can be written to: its buffer has its size, the descriptor is a valid one.\<close>

definition chan_ok :: "chstate \<Rightarrow> bool" where
  "chan_ok ch \<longleftrightarrow> length (ch_buf ch) = IO_BUF_SIZE \<and> 0 \<le> ch_fd ch \<and> ch_fd ch < FD_SETSIZE"

lemma set_wset_ok:
  "chan_ok (chan s c) \<Longrightarrow> set_wset c s = Inr (s\<lparr>fb_fs := (fb_fs s)\<lparr>fs_wset := insert (ch_fd (chan s c)) (fs_wset (fb_fs s))\<rparr>\<rparr>)"
  by (simp add: set_wset_def FD_SET_def chan_ok_def)

lemma ack_appended:
  assumes "chan_ok (chan s FO_MAIN)" "ch_cur (chan s FO_MAIN) < IO_BUF_SIZE"
  shows "\<exists>s'. commission_ack_on_main n s = Inr s' \<and> appended FO_MAIN [if n then NAK else ACK] s s'
    \<and> fb_stats s' = fb_stats s"
  using assms
  by (auto simp: commission_ack_on_main_def write_at_def chan_ok_def set_wset_def FD_SET_def appended_def Let_def
      set_chan_def)

lemma serialize_offset:
  assumes "msg_ok m" "length (wire_text m) \<le> IO_BUF_SIZE - 1 - cur" "wire_need m \<le> IO_BUF_SIZE - cur"
    "length buf = IO_BUF_SIZE" "cur < IO_BUF_SIZE"
  shows "\<exists>mem. serialize (IO_BUF_SIZE - 1 - cur) (drop cur buf) m = Inr (int (length (wire_text m)), mem)
    \<and> take (length (wire_text m)) mem = wire_text m \<and> length mem = IO_BUF_SIZE - cur"
  using serialize_ok [OF assms(1,2), of "drop cur buf"] assms(3-5) by auto

lemma hardcoded_appended:
  assumes "chan_ok (chan s FO_MAIN)" "hardcoded_message (fc_config (fb_cfg s)) t ty = Inr m" "msg_ok m"
    and "ch_cur (chan s FO_MAIN) + wire_need m < IO_BUF_SIZE"
  shows "\<exists>s'. commission_hardcoded_message_on_main t ty s = Inr (True, s') \<and> appended FO_MAIN (wire_text m) s s'
    \<and> fb_ack s' \<and> fb_stats s' = fb_stats s"
proof -
  let ?cur = "ch_cur (chan s FO_MAIN)" and ?buf = "ch_buf (chan s FO_MAIN)"
  have len: "length (wire_text m) \<le> wire_need m" by (simp add: wire_need_def wire_text_def frame_need_def)
  have fit: "length (wire_text m) \<le> IO_BUF_SIZE - 1 - ?cur" "wire_need m \<le> IO_BUF_SIZE - ?cur"
    "length ?buf = IO_BUF_SIZE" "?cur < IO_BUF_SIZE"
    using assms(1,4) len by (simp_all add: chan_ok_def)
  obtain mem where mem: "serialize (IO_BUF_SIZE - 1 - ?cur) (drop ?cur ?buf) m = Inr (int (length (wire_text m)), mem)"
    "take (length (wire_text m)) mem = wire_text m" "length mem = IO_BUF_SIZE - ?cur"
    using serialize_offset [OF assms(3) fit] by blast
  have cur: "?cur \<le> IO_BUF_SIZE - 1" "length ?buf = IO_BUF_SIZE" using assms(1,4) by (auto simp: chan_ok_def)
  show ?thesis
    using assms(1,2) mem cur
    by (auto simp: commission_hardcoded_message_on_main_def Let_def free_space_def set_wset_def FD_SET_def chan_ok_def
        appended_def set_chan_def)
qed

lemma native_appended:
  assumes "chan_ok (chan s c)" "msg_magic m = FROB_MAGIC" "repr m \<noteq> []" "ch_cur (chan s c) + length (repr m) < IO_BUF_SIZE - 1"
  shows "\<exists>s'. commission_native_message repr c m s = Inr (True, s') \<and> appended c (repr m) s s' \<and> fb_stats s' = fb_stats s"
  using assms
  by (auto simp: commission_native_message_def Let_def free_space_def write_at_def set_wset_def FD_SET_def chan_ok_def
      appended_def set_chan_def IO_BUF_SIZE_def)

lemma native_full:
  assumes "msg_magic m = FROB_MAGIC" "ch_cur (chan s c) < IO_BUF_SIZE" "IO_BUF_SIZE - 1 \<le> ch_cur (chan s c) + length (repr m)"
  shows "commission_native_message repr c m s = Inr (False, s)"
  using assms by (auto simp: commission_native_message_def Let_def free_space_def IO_BUF_SIZE_def)

lemma frame_format_text: "frame_format t body = STX # (print_X (unat t) @ FS # body) @ [ETX, 0x5F]"
  by (simp add: frame_format_def)

lemma frame_appended:
  assumes "chan_ok (chan s FO_MAIN)" and p: "p = print_X (unat t) @ FS # body" "ETX \<notin> set p"
    and "parse_message p (blank_msg 0) = Inr (0, m)"
    and fit: "ch_cur (chan s FO_MAIN) + length p + 3 < IO_BUF_SIZE - 1"
  shows "\<exists>s'. commission_frame_on_main t body s = Inr (True, s') \<and> appended FO_MAIN (frame_of p) s s' \<and> fb_ack s'
    \<and> fb_stats s' = fb_stats s"
proof -
  let ?ch = "chan s FO_MAIN"
  let ?cur = "ch_cur ?ch" and ?buf = "ch_buf ?ch"
  let ?sp = "IO_BUF_SIZE - 1 - ?cur" and ?ret = "length p + 3"
  let ?rest = "drop (Suc (Suc (Suc (Suc (?cur + length p))))) ?buf"
  let ?buf2 = "take ?cur ?buf @ frame_of p @ 0 # ?rest"
  have len: "length ?buf = IO_BUF_SIZE" "?cur \<le> length ?buf" "?ret < ?sp" using assms(1) fit by (auto simp: chan_ok_def)
  have pn: "p \<noteq> []" using p(1) by simp
  have fmt: "frame_format t body = STX # p @ [ETX, 0x5F]" "length (frame_format t body) = ?ret"
    using p(1) by (simp_all add: frame_format_text)
  have b1: "xsnprintf ?sp ?buf ?cur (frame_format t body) =
      Inr (take ?cur ?buf @ (STX # p @ [ETX, 0x5F]) @ 0 # ?rest, ?ret)"
    using len fmt fit by (simp add: xsnprintf_def snprintf_at_def write_at_def)
  have lrc: "calculate_lrc (drop (?cur + 1) (take (?cur + ?ret - 1) (take ?cur ?buf @ (STX # p @ [ETX, 0x5F]) @ 0 # ?rest))) =
      Inr (lrc_loop 0 (p @ [ETX]))"
    using len(2) by (simp add: calculate_lrc_def numeral_3_eq_3)
  have b2: "(take ?cur ?buf @ (STX # p @ [ETX, 0x5F]) @ 0 # ?rest)[?cur + ?ret - 1 := lrc_loop 0 (p @ [ETX])] = ?buf2"
    using len(2) by (simp add: frame_of_def list_update_append numeral_3_eq_3)
  have inp: "take (?cur + ?sp - ?cur) (drop ?cur ?buf2) = STX # p @ ETX # lrc_loop 0 (p @ [ETX]) # take (?sp - ?ret) (0 # ?rest)"
    using len by (simp add: frame_of_def numeral_3_eq_3 take_Cons')
  have "find_frame (STX # p @ ETX # lrc_loop 0 (p @ [ETX]) # rest) = Some (1, 1 + length p, True)" for rest
    using find_frame_body [of "[]" p "lrc_loop 0 (p @ [ETX])" rest] p(2) pn by simp
  then have ok: "fst (frob_frame_process ?buf2 (fresh_fsm ?cur (?cur + ?sp))) = 0"
    using frame_process_at [where buf = ?buf2 and p = ?cur and pe = "?cur + ?sp"] unfolding inp by simp
  have mid: "drop (?cur + 1) (take (?cur + ?ret - 2) ?buf2) = p"
    using len(2) by (simp add: frame_of_def numeral_3_eq_3)
  have sp: "free_space ?ch = Inr ?sp" using fit by (simp add: free_space_def)
  have run: "commission_frame_on_main t body s =
      (let ch = ?ch\<lparr>ch_buf := ?buf2\<rparr> in
       rbind (set_wset FO_MAIN ((set_chan FO_MAIN ch s)\<lparr>fb_ack := True\<rparr>)) (\<lambda>s1.
         Inr (True, set_chan FO_MAIN (ch\<lparr>ch_cur := ?cur + ?ret\<rparr>) s1)))"
    using len(3) assms(4)
    by (simp only: commission_frame_on_main_def Let_def sp rbind_simps b1 lrc b2 ok mid c_assert_True
        not_le if_False simp_thms case_prod_conv linorder_not_less [symmetric])
  show ?thesis
    using assms(1) len(2) fit
    by (auto simp: run Let_def set_wset_def FD_SET_def chan_ok_def appended_def set_chan_def)
qed

section \<open>The frames composed by hand\<close>

definition fallback_s2 :: "byte list" where
  "fallback_s2 = lit ''S2'' @ [FS] @ lit ''993'' @ [FS, FS] @ lit ''M000'' @ [FS] @ lit ''T000'' @ [FS] @ lit ''N/A''
     @ [FS, FS, FS] @ lit ''NONE'' @ [FS] @ lit ''Payment endpoint busy'' @ [FS]"

definition fallback_msg :: frob_s2 where
  "fallback_msg = \<lparr>s2_error = 993, s2_card_token = zeros 32, s2_mid = pad 20 (lit ''M000''), s2_tid = pad 20 (lit ''T000''),
     s2_trx_id = pad 20 (lit ''N/A''), s2_trx_amount = zeros 12, s2_cashback = zeros 12,
     s2_payment_method = pad 40 (lit ''NONE''), s2_msg = pad 80 (lit ''Payment endpoint busy'')\<rparr>"

lemma header_payload:
  assumes "unat (t :: 32 word) < 2 ^ 24" "letter_ok c" "number_ok c n"
    and "frob_body_extract (deserialize_type c n) rest T1 = Inr (0, body, [])"
  shows "parse_message (print_X (unat t) @ FS # c # n # FS # rest) (blank_msg 0) =
    Inr (0, \<lparr>msg_magic = FROB_MAGIC, msg_header = \<lparr>hdr_type = deserialize_type c n, hdr_token = t\<rparr>,
      msg_body = body, msg_attr = zero_attr\<rparr>)"
  using header_extract_text [OF token_header_ok [OF assms(1-3)], of rest "\<lparr>hdr_type = 0, hdr_token = 0\<rparr>"]
    token_roundtrip [of t] assms(4)
  by (simp add: parse_message_def header_text_def Let_def blank_msg_def)

lemma ping_parses:
  assumes "unat t < 2 ^ 24"
  shows "parse_message (print_X (unat t) @ FS # ping_body) (blank_msg 0) =
    Inr (0, \<lparr>msg_magic = FROB_MAGIC, msg_header = \<lparr>hdr_type = FROB_T1, hdr_token = t\<rparr>, msg_body = T1, msg_attr = zero_attr\<rparr>)"
proof -
  have "letter_ok 0x54" "number_ok 0x54 0x31" by (simp_all add: letter_ok_def number_ok_def)
  from header_payload [OF assms this, of "[]" T1] show ?thesis
    by (simp add: ping_body_def frob_enum frob_body_extract_def extract_defs run_machine_def)
qed

lemma ping_token: "unat t < 2 ^ 24 \<Longrightarrow> ETX \<notin> set (print_X (unat t) @ FS # ping_body)"
  using clean_frame [OF clean_fields(2), of "unat t"] by (simp add: ping_body_def) (simp add: wire_defs)

text \<open>The body is read field by field with the contract of the fields.\<close>

lemma fallback_fields:
  "rl_exec s2_fields [] zero_s2 (drop 3 fallback_s2) = Inr (Some (0, []), fallback_msg, [])"
  by (simp add: fallback_s2_def s2_fields_def text_fld_def num_fld_def hex_fld_def no_char_def room_def UNHEX_def
      write_at_def rl_a_def is_digit_def is_xdigit_def wire_defs fallback_msg_def zero_s2_def copy_into_zeros
      strtol10_def of_digits_def decval_def)

lemma fallback_parses:
  assumes "unat t < 2 ^ 24"
  shows "parse_message (print_X (unat t) @ FS # fallback_s2) (blank_msg 0) =
    Inr (0, \<lparr>msg_magic = FROB_MAGIC, msg_header = \<lparr>hdr_type = FROB_S2, hdr_token = t\<rparr>,
      msg_body = S2 fallback_msg, msg_attr = zero_attr\<rparr>)"
proof -
  have ok: "letter_ok 0x53" "number_ok 0x53 0x32" by (simp_all add: letter_ok_def number_ok_def)
  have split: "fallback_s2 = 0x53 # 0x32 # FS # drop 3 fallback_s2"
    by (simp add: fallback_s2_def)
  have "frob_body_extract (deserialize_type 0x53 0x32) (drop 3 fallback_s2) T1 = Inr (0, S2 fallback_msg, [])"
    using fallback_fields by (simp add: frob_enum frob_body_extract_def extract_s2_def run_machine_def)
  from header_payload [OF assms ok this] show ?thesis
    by (subst split) (simp add: frob_enum)
qed

lemma fallback_token: "ETX \<notin> set (print_X (unat t) @ FS # fallback_s2)"
  using clean_frame [OF clean_fields(2), of "unat t"]
  by (simp add: fallback_s2_def) (simp add: wire_defs)

end
