(* ===== verification/Daemon.thy ===== *)
theory Daemon
  imports Commission
begin

text \<open>
  The event loop of \<open>frob.c\<close>: waiting with \<open>select\<close>, reading and writing the channels, and handling
  what the input channels hold. What the kernel answers in one turn is a record of the model.
\<close>

section \<open>The kernel\<close>

datatype read_answer = Read_Failed | Read_Bytes "byte list"

datatype timer_id = Timer_Ack | Timer_Ping | Timer_Other

text \<open>
  One \<open>struct signalfd_siginfo\<close>; of SIGALRM the timer and whether it comes from one.
\<close>

datatype siginfo = Sig_Int | Sig_Alrm bool timer_id | Sig_Pwr | Sig_Other

text \<open>
  \<open>k_repr\<close> and \<open>k_unrepr\<close> give the bytes of a \<open>struct frob_msg\<close>, \<open>k_siginfo\<close> reads one
  \<open>struct signalfd_siginfo\<close>; \<open>k_tty\<close> is the pair of descriptors the console gets, \<open>k_select\<close> the number
  of ready descriptors with the sets left by \<open>select\<close>.
\<close>

record kernel =
  k_repr :: "frob_msg \<Rightarrow> byte list"
  k_unrepr :: "byte list \<Rightarrow> frob_msg"
  k_msg_size :: nat
  k_siginfo :: "byte list \<Rightarrow> siginfo"
  k_lock :: "int \<Rightarrow> lock_answer"
  k_unlock_ok :: bool
  k_tty :: "int \<times> int"
  k_select :: "int \<times> int set \<times> int set \<times> int set"  \<comment> \<open>result, rset, wset, eset\<close>
  k_write :: "channel \<Rightarrow> nat \<Rightarrow> int"
  k_read :: "channel \<Rightarrow> nat \<Rightarrow> read_answer"

definition SIGINFO_SIZE :: nat where "SIGINFO_SIZE = 128"

section \<open>Frames on the main channel\<close>

definition count_good :: "frob_state \<Rightarrow> frob_state" where
  "count_good s = s\<lparr>fb_stats := (fb_stats s)\<lparr>received_good := received_good (fb_stats s) + 1\<rparr>\<rparr>"

definition count_bad_lrc :: "frob_state \<Rightarrow> frob_state" where
  "count_bad_lrc s = s\<lparr>fb_stats := (fb_stats s)\<lparr>received_bad_lrc := received_bad_lrc (fb_stats s) + 1\<rparr>\<rparr>"

definition count_bad_parse :: "frob_state \<Rightarrow> frob_state" where
  "count_bad_parse s = s\<lparr>fb_stats := (fb_stats s)\<lparr>received_bad_parse := received_bad_parse (fb_stats s) + 1\<rparr>\<rparr>"

definition count_bad_handled :: "frob_state \<Rightarrow> frob_state" where
  "count_bad_handled s = s\<lparr>fb_stats := (fb_stats s)\<lparr>received_bad_handled := received_bad_handled (fb_stats s) + 1\<rparr>\<rparr>"

lemmas count_defs = count_good_def count_bad_lrc_def count_bad_parse_def count_bad_handled_def

text \<open>The body of the loop of \<open>process_main\<close>, for the frame between \<open>p\<close> and \<open>pe\<close> with verdict \<open>e\<close>.\<close>

definition handle_frame :: "kernel \<Rightarrow> errno \<Rightarrow> nat \<Rightarrow> nat \<Rightarrow> frob_state \<Rightarrow> frob_state outcome" where
  "handle_frame k e p pe s =
     (let buf = ch_buf (chan s FI_MAIN) in
      rbind (commission_ack_on_main (e \<noteq> 0) s) (\<lambda>s1.
      if e = 0 then
        c_assert (pe > p)
        (rbind (parse_message (drop p (take pe buf)) (blank_msg 0)) (\<lambda>(r, m).
         if r \<noteq> 0 then Inr (count_bad_parse s1)
         else
           rbind (if hdr_type (msg_header m) = FROB_T2
                  then rbind (alarm_set (fb_timer_ping s1) 0) (\<lambda>v. Inr (s1\<lparr>fb_ping := False, fb_timer_ping := v\<rparr>))
                  else Inr s1) (\<lambda>s2.
           rbind (commission_response (k_repr k) (k_lock k) m s2) (\<lambda>(handled, s3).
             Inr (if handled then count_good s3 else count_bad_handled s3)))))
      else Inr (count_bad_lrc s1)))"

definition fnext :: "nat \<Rightarrow> nat \<Rightarrow> frame_fsm_state outcome" where
  "fnext cursor pe = c_assert (pe + 2 \<le> cursor) (Inr (fresh_fsm (pe + 2) cursor))"

text \<open>Handling a frame leaves the input channel alone; the loop reads it again in every turn.\<close>

lemma set_wset_chan: "set_wset c s = Inr s' \<Longrightarrow> chan s' d = chan s d"
  by (auto simp: set_wset_def rbind_eq_Inr)

lemma ack_keeps: "commission_ack_on_main n s = Inr s' \<Longrightarrow> c \<noteq> FO_MAIN \<Longrightarrow> chan s' c = chan s c"
  by (auto simp: commission_ack_on_main_def Let_def rbind_eq_Inr dest!: set_wset_chan [where d = c])

lemma frame_keeps:
  "commission_frame_on_main t b s = Inr (r, s') \<Longrightarrow> c \<noteq> FO_MAIN \<Longrightarrow> chan s' c = chan s c"
  by (auto simp: commission_frame_on_main_def Let_def rbind_eq_Inr split: if_splits dest!: set_wset_chan [where d = c])

lemma hardcoded_keeps:
  "commission_hardcoded_message_on_main t m s = Inr (r, s') \<Longrightarrow> c \<noteq> FO_MAIN \<Longrightarrow> chan s' c = chan s c"
  by (auto simp: commission_hardcoded_message_on_main_def Let_def rbind_eq_Inr split: if_splits
      dest!: set_wset_chan [where d = c])

lemma native_keeps:
  "commission_native_message repr dst m s = Inr (r, s') \<Longrightarrow> c \<noteq> dst \<Longrightarrow> chan s' c = chan s c"
  by (auto simp: commission_native_message_def Let_def rbind_eq_Inr split: if_splits dest!: set_wset_chan [where d = c])

lemma response_keeps:
  assumes "commission_response repr lock m s = Inr (r, s')" "is_input c"
  shows "chan s' c = chan s c"
proof -
  have out: "c \<noteq> NO_PAYMENT \<and> c \<noteq> NO_STORAGE \<and> c \<noteq> NO_UI \<and> c \<noteq> FO_MAIN"
    using assms(2) by (cases c) (simp_all add: is_input_def less_eq_channel_def)
  show ?thesis
    using assms(1) out
    by (auto simp: commission_response_def Let_def rbind_eq_Inr split: if_splits
        dest!: destination_not_master dest: frame_keeps hardcoded_keeps native_keeps)
qed

lemma handle_keeps:
  assumes "handle_frame k e p pe s = Inr s'" "is_input c"
  shows "chan s' c = chan s c"
proof -
  have "c \<noteq> FO_MAIN" using assms(2) by (auto simp: is_input_def less_eq_channel_def)
  then show ?thesis
    using assms
    by (auto simp: handle_frame_def Let_def rbind_eq_Inr count_defs split: if_splits
        dest!: ack_keeps [where c = c] response_keeps [where c = c])
qed

text \<open>
  The loop of \<open>process_main\<close>: it ends when no complete frame is left. Every turn moves the start of
  the search towards the cursor.
\<close>

function main_loop :: "kernel \<Rightarrow> frob_state \<Rightarrow> frame_fsm_state \<Rightarrow> (frob_state \<times> frame_fsm_state) outcome" where
  "main_loop k s f =
     (let ch = chan s FI_MAIN in
      case frob_frame_process (ch_buf ch) f of (e, f1) \<Rightarrow>
        if e = EAGAIN then Inr (s, f1)
        else case fst_pe f1 of
          None \<Rightarrow> Inl Assert_Failed
        | Some pe \<Rightarrow>
            c_assert (ch_cur ch < IO_BUF_SIZE)
            (c_assert (fst_p f1 < ch_cur ch)
            (c_assert (pe \<le> ch_cur ch)
            (rbind (handle_frame k e (fst_p f1) pe s) (\<lambda>s1.
             rbind (fnext (ch_cur (chan s1 FI_MAIN)) pe) (\<lambda>f2.
               main_loop k s1 f2))))))"
  by pat_completeness auto
termination
proof (relation "measure (\<lambda>(k, s, f). ch_cur (chan s FI_MAIN) - fst_p f)", goal_cases)
  case (2 k s f ch e f1 pe s1 f2)
  have "is_input FI_MAIN" by (simp add: is_input_def less_eq_channel_def)
  then have "chan s1 FI_MAIN = chan s FI_MAIN" using handle_keeps [OF 2(8)] by blast
  moreover have "fst_p f \<le> pe" using frame_process_end [OF 2(2) [symmetric] 2(3)] 2(4) by auto
  ultimately show ?case using 2(9) by (auto simp: fnext_def fresh_fsm_def)
qed simp

declare main_loop.simps [simp del]

definition process_main :: "kernel \<Rightarrow> frob_state \<Rightarrow> frame_fsm_state \<Rightarrow> (frob_state \<times> frame_fsm_state) outcome" where
  "process_main k s f =
     rbind (main_loop k s (f\<lparr>fst_pe := Some (ch_cur (chan s FI_MAIN))\<rparr>)) (\<lambda>(s1, f1).
       Inr (set_chan FI_MAIN ((chan s1 FI_MAIN)\<lparr>ch_cur := 0\<rparr>) s1, f1\<lparr>fst_p := 0, fst_pe := None\<rparr>))"

end
