(* ===== verification/Event_Loop.thy ===== *)
theory Event_Loop
  imports Daemon
begin

text \<open>
  The other input channels of \<open>frob.c\<close>, the reads and writes that are due, and the event loop.
\<close>

section \<open>Signals\<close>

definition close_main_channel :: "frob_state \<Rightarrow> frob_state" where
  "close_main_channel s =
     (let s1 = set_chan FI_MAIN ((chan s FI_MAIN)\<lparr>ch_fd := - 1\<rparr>) (set_chan FO_MAIN ((chan s FO_MAIN)\<lparr>ch_fd := - 1\<rparr>) s)
      in if fb_timeout_sec s1 \<noteq> 0 then s1\<lparr>fb_timeout_sec := 1\<rparr> else s1)"

definition interactive_hint :: "byte list" where
  "interactive_hint = lit ''Press ^C again to exit the program or ^D end interactive session...'' @ [0x0A]"

text \<open>The console is the terminal on the standard streams, or one that is opened; -1 when that fails.\<close>

definition start_master_channel :: "kernel \<Rightarrow> frob_state \<Rightarrow> frob_state outcome" where
  "start_master_channel k s =
     (let s1 = set_chan CI_MASTER ((chan s CI_MASTER)\<lparr>ch_fd := fst (k_tty k)\<rparr>)
                 (set_chan CO_MASTER ((chan s CO_MASTER)\<lparr>ch_fd := snd (k_tty k)\<rparr>) s);
          s2 = s1\<lparr>fb_maxfd := get_max_fd (fs_ch (fb_fs s1))\<rparr>
      in rbind (mcopy_to CO_MASTER interactive_hint s2) commission_prompt_on_master)"

definition sig_number :: "siginfo \<Rightarrow> nat" where
  "sig_number i = (case i of Sig_Int \<Rightarrow> 2 | Sig_Alrm _ _ \<Rightarrow> 14 | Sig_Pwr \<Rightarrow> 30 | Sig_Other \<Rightarrow> 0)"

definition handle_signal :: "kernel \<Rightarrow> siginfo \<Rightarrow> frob_state \<Rightarrow> frob_state outcome" where
  "handle_signal k i s =
     (case i of
        Sig_Int \<Rightarrow> start_master_channel k s
      | Sig_Alrm from_timer t \<Rightarrow>
          c_assert from_timer
          (if ch_fd (chan s FO_MAIN) = - 1 then Inr s
           else
             (case t of
                Timer_Ack \<Rightarrow> set_wset FO_MAIN s
              | Timer_Ping \<Rightarrow> Inr (close_main_channel s)
              | Timer_Other \<Rightarrow> Inl Assert_Failed))
      | Sig_Pwr \<Rightarrow> Inr s
      | Sig_Other \<Rightarrow> Inl Assert_Failed)"

text \<open>A signal number handled before in the same batch is skipped.\<close>

fun handle_signals :: "kernel \<Rightarrow> nat set \<Rightarrow> siginfo list \<Rightarrow> frob_state \<Rightarrow> frob_state outcome" where
  "handle_signals k done [] s = Inr s"
| "handle_signals k done (i # is) s =
     c_assert (i \<noteq> Sig_Other)
     (if sig_number i \<in> done then handle_signals k done is s
      else rbind (handle_signal k i s) (handle_signals k (insert (sig_number i) done) is))"

fun blocks :: "nat \<Rightarrow> nat \<Rightarrow> byte list \<Rightarrow> byte list list" where
  "blocks sz 0 bs = []"
| "blocks sz (Suc n) bs = take sz bs # blocks sz n (drop sz bs)"

definition process_signal :: "kernel \<Rightarrow> frob_state \<Rightarrow> frob_state outcome" where
  "process_signal k s =
     (let ch = chan s II_SIGNAL in
      rbind (used_space ch) (\<lambda>u.
      c_assert (u > 0 \<and> u mod SIGINFO_SIZE = 0)
      (rbind (handle_signals k {} (map (k_siginfo k) (blocks SIGINFO_SIZE (u div SIGINFO_SIZE) (ch_buf ch))) s) (\<lambda>s1.
         Inr (set_chan II_SIGNAL ((chan s1 II_SIGNAL)\<lparr>ch_cur := 0\<rparr>) s1)))))"

section \<open>Console and device\<close>

definition process_master :: "frob_state \<Rightarrow> frob_state outcome" where
  "process_master s = commission_prompt_on_master s"

text \<open>Every message is serialised at the cursor of the main channel; the cursor stays where it is.\<close>

fun serialize_all :: "kernel \<Rightarrow> frob_msg list \<Rightarrow> frob_state \<Rightarrow> frob_state outcome" where
  "serialize_all k [] s = Inr s"
| "serialize_all k (m # ms) s =
     (if hdr_type (msg_header m) = FROB_S2 \<and> \<not> k_unlock_ok k then Inl Aborted
      else
        (let ch = chan s FO_MAIN; cur = ch_cur ch in
         rbind (free_space ch) (\<lambda>sp.
         rbind (serialize sp (drop cur (ch_buf ch)) m) (\<lambda>(w, mem).
           serialize_all k ms (set_chan FO_MAIN (ch\<lparr>ch_buf := take cur (ch_buf ch) @ mem\<rparr>) s)))))"

definition process_device :: "kernel \<Rightarrow> frob_state \<Rightarrow> frob_state outcome" where
  "process_device k s =
     (let dev = chan s NI_DEVICE in
      rbind (used_space dev) (\<lambda>u.
      c_assert (u > 0 \<and> u mod k_msg_size k = 0)
      (serialize_all k (map (k_unrepr k) (blocks (k_msg_size k) (u div k_msg_size k) (ch_buf dev))) s)))"

definition process_channel ::
  "kernel \<Rightarrow> channel \<Rightarrow> frob_state \<Rightarrow> frame_fsm_state \<Rightarrow> (frob_state \<times> frame_fsm_state) outcome" where
  "process_channel k c s f =
     c_assert (is_input c)
     (case c of
        II_SIGNAL \<Rightarrow> rbind (process_signal k s) (\<lambda>s'. Inr (s', f))
      | CI_MASTER \<Rightarrow> rbind (process_master s) (\<lambda>s'. Inr (s', f))
      | FI_MAIN \<Rightarrow> process_main k s f
      | NI_DEVICE \<Rightarrow> rbind (process_device k s) (\<lambda>s'. Inr (s', f))
      | _ \<Rightarrow> Inr (s, f))"

section \<open>Pending input and output\<close>

text \<open>A short write ends the process.\<close>

definition perform_pending_write :: "kernel \<Rightarrow> channel \<Rightarrow> frob_state \<Rightarrow> frob_state outcome" where
  "perform_pending_write k i s =
     (let ch = chan s i in
      c_assert (ch_cur ch > 0)
      (c_assert (is_output i)
      (rbind (used_space ch) (\<lambda>l.
       if k_write k i l \<noteq> int l then Inl Exited
       else
         rbind (if i = FO_MAIN \<and> fb_ack s
                then rbind (alarm_set (fb_timer_ack s) 3) (\<lambda>v. Inr (s\<lparr>fb_timer_ack := v\<rparr>)) else Inr s) (\<lambda>s1.
         rbind (if i = FO_MAIN \<and> fb_ping s1
                then rbind (alarm_set (fb_timer_ping s1) 10) (\<lambda>v. Inr (s1\<lparr>fb_timer_ping := v\<rparr>)) else Inr s1) (\<lambda>s2.
           Inr (set_chan i (ch\<lparr>ch_cur := 0\<rparr>) s2)))))))"

text \<open>A read of zero bytes means that the channel was closed.\<close>

definition channel_closed :: "channel \<Rightarrow> frob_state \<Rightarrow> frob_state outcome" where
  "channel_closed i s =
     (let ch = chan s i;
          s1 = s\<lparr>fb_fs := (fb_fs s)\<lparr>fs_rset := fs_rset (fb_fs s) - {ch_fd ch}\<rparr>\<rparr>;
          s2 = set_chan i (ch\<lparr>ch_fd := - 1\<rparr>) s1
      in c_assert (is_input i)
         (let s3 = (if i = FI_MAIN then close_main_channel s2
                    else if i = CI_MASTER then set_chan CO_MASTER ((chan s2 CO_MASTER)\<lparr>ch_fd := - 1\<rparr>) s2
                    else s2)
          in Inr (s3\<lparr>fb_maxfd := get_max_fd (fs_ch (fb_fs s3))\<rparr>)))"

text \<open>While an acknowledgement is awaited, an ACK or a NAK at the start of what was read ends the wait.\<close>

definition note_ack :: "byte \<Rightarrow> frob_state \<Rightarrow> frob_state outcome" where
  "note_ack b s =
     (if fb_ack s \<and> (b = ACK \<or> b = NAK) then
        rbind (alarm_set (fb_timer_ack s) 0) (\<lambda>v.
          Inr (set_chan FO_MAIN ((chan s FO_MAIN)\<lparr>ch_cur := 0\<rparr>) (s\<lparr>fb_timer_ack := v, fb_ack := False\<rparr>)))
      else Inr s)"

definition perform_pending_read :: "kernel \<Rightarrow> channel \<Rightarrow> frob_state \<Rightarrow> frob_state outcome" where
  "perform_pending_read k i s =
     (let ch = chan s i in
      rbind (free_space ch) (\<lambda>sp.
      case k_read k i sp of
        Read_Failed \<Rightarrow> Inl Exited
      | Read_Bytes bs \<Rightarrow>
          if bs = [] then channel_closed i s
          else
            rbind (write_at (ch_buf ch) (ch_cur ch) bs) (\<lambda>buf.
            rbind (note_ack (hd bs) (set_chan i (ch\<lparr>ch_buf := buf\<rparr>) s)) (\<lambda>s1.
              Inr (set_chan i ((chan s1 i)\<lparr>ch_cur := ch_cur (chan s1 i) + length bs\<rparr>) s1)))))"

definition perform_pending_on :: "kernel \<Rightarrow> channel \<Rightarrow> frob_state \<Rightarrow> frob_state outcome" where
  "perform_pending_on k i s =
     (let fd = ch_fd (chan s i) in
      if fd < 0 then Inr s
      else if fd \<in> fs_eset (fb_fs s) then Inl Exited
      else
        rbind (if fd \<in> fs_wset (fb_fs s) then perform_pending_write k i s else Inr s) (\<lambda>s1.
        rbind (if fd \<in> fs_rset (fb_fs s1) then perform_pending_read k i s1 else Inr s1) (\<lambda>s2.
          Inr (s2\<lparr>fb_fs := (fb_fs s2)\<lparr>fs_wset := fs_wset (fb_fs s2) - {fd}\<rparr>\<rparr>))))"

fun on_channels :: "(channel \<Rightarrow> frob_state \<Rightarrow> frob_state outcome) \<Rightarrow> channel list \<Rightarrow> frob_state \<Rightarrow> frob_state outcome" where
  "on_channels op [] s = Inr s"
| "on_channels op (c # cs) s = rbind (op c s) (on_channels op cs)"

definition perform_pending_io :: "kernel \<Rightarrow> frob_state \<Rightarrow> frob_state outcome" where
  "perform_pending_io k s = on_channels (perform_pending_on k) all_channels s"

section \<open>Waiting\<close>

definition reset_fdset :: "channel \<Rightarrow> frob_state \<Rightarrow> frob_state outcome" where
  "reset_fdset i s =
     (let fd = ch_fd (chan s i) in
      if fd < 0 then Inr s
      else
        rbind (FD_SET fd (fs_eset (fb_fs s))) (\<lambda>es.
        rbind (if is_input i then FD_SET fd (fs_rset (fb_fs s)) else Inr (fs_rset (fb_fs s))) (\<lambda>rs.
          Inr (s\<lparr>fb_fs := (fb_fs s)\<lparr>fs_eset := es, fs_rset := rs\<rparr>\<rparr>))))"

definition reset_fdsets :: "frob_state \<Rightarrow> frob_state outcome" where
  "reset_fdsets s = on_channels reset_fdset all_channels s"

text \<open>
  The value that the loop tests. After a timeout it is that of \<open>commission_ping_on_main\<close>; without
  pings left, and on an error, the process aborts.
\<close>

definition wait_for_io :: "kernel \<Rightarrow> frob_state \<Rightarrow> (int \<times> frob_state) outcome" where
  "wait_for_io k s =
     rbind (reset_fdsets s) (\<lambda>s1.
       case k_select k of (l, rs, ws, es) \<Rightarrow>
         let s2 = s1\<lparr>fb_fs := (fb_fs s1)\<lparr>fs_rset := rs, fs_wset := ws, fs_eset := es\<rparr>\<rparr> in
         if l < 0 then Inl Aborted
         else if l = 0 \<and> fb_timeout_sec s2 \<noteq> 0 then
           (let left = fb_pings_left s2; s3 = s2\<lparr>fb_pings_left := left - 1\<rparr> in
            if left \<noteq> 0 then commission_ping_on_main s3 else Inl Aborted)
         else Inr (l, s2))"

fun process_inputs ::
  "kernel \<Rightarrow> channel list \<Rightarrow> frob_state \<Rightarrow> frame_fsm_state \<Rightarrow> (frob_state \<times> frame_fsm_state) outcome" where
  "process_inputs k [] s f = Inr (s, f)"
| "process_inputs k (c # cs) s f =
     (if ch_fd (chan s c) \<ge> 0 \<and> ch_fd (chan s c) \<in> fs_rset (fb_fs s)
      then rbind (process_channel k c s f) (\<lambda>(s', f'). process_inputs k cs s' f')
      else process_inputs k cs s f)"

text \<open>
  The event loop over the turns for which the kernel's answers are given: \<open>True\<close> when it ended by
  itself.
\<close>

fun event_loop ::
  "kernel list \<Rightarrow> frob_state \<Rightarrow> frame_fsm_state \<Rightarrow> (bool \<times> frob_state \<times> frame_fsm_state) outcome" where
  "event_loop [] s f = Inr (False, s, f)"
| "event_loop (k # ks) s f =
     rbind (wait_for_io k s) (\<lambda>(go, s1).
       if go = 0 then Inr (True, s1, f)
       else
         rbind (perform_pending_io k s1) (\<lambda>s2.
         rbind (process_inputs k (filter is_input all_channels) s2 f) (\<lambda>(s3, f3).
           event_loop ks s3 f3)))"

text \<open>The state of the frame finder the loop starts with: \<open>{ .p = buf }\<close>.\<close>

definition loop_fsm :: frame_fsm_state where
  "loop_fsm = \<lparr>fst_lrc = 0, fst_not_first = False, fst_cs = F_error, fst_p = 0, fst_pe = None\<rparr>"

end
