(* ===== verification/Daemon_Facts.thy ===== *)
theory Daemon_Facts
  imports Event_Loop
begin

text \<open>
  What the event loop of \<open>frob.c\<close> does with the messages it receives, and what it never does to its
  buffers.
\<close>

section \<open>Answers\<close>

text \<open>
  The messages answered on the main channel itself, with the answer; \<open>None\<close> as the answer stands for
  those that are only acknowledged.
\<close>

definition frob_reply :: "config \<Rightarrow> frob_msg \<Rightarrow> frob_msg option option" where
  "frob_reply cfg m =
     (case msg_body m of
        T1 \<Rightarrow> Some (Some (answer m (T2 (cfg_info cfg))))
      | D4 \<Rightarrow> Some (Some (answer m (D5 (cfg_parameters cfg))))
      | B1 _ \<Rightarrow> Some (Some (answer m (B2 (zero_b2\<lparr>b2_info := cfg_info cfg\<rparr>))))
      | T2 _ \<Rightarrow> Some None
      | T5 _ \<Rightarrow> Some None
      | _ \<Rightarrow> None)"

definition reply_text :: "config \<Rightarrow> frob_msg \<Rightarrow> byte list" where
  "reply_text cfg m = (case frob_reply cfg m of Some (Some a) \<Rightarrow> wire_text a | _ \<Rightarrow> [])"

definition reply_need :: "config \<Rightarrow> frob_msg \<Rightarrow> nat" where
  "reply_need cfg m = (case frob_reply cfg m of Some (Some a) \<Rightarrow> wire_need a | _ \<Rightarrow> 0)"

lemma reply_text_need: "length (reply_text cfg m) \<le> reply_need cfg m"
  by (auto simp: reply_text_def reply_need_def wire_need_def wire_text_def frame_need_def split: option.split)

lemma reply_msg_ok:
  assumes "msg_ok m" "cfg_ok cfg" "frob_reply cfg m = Some (Some a)"
  shows "msg_ok a"
proof -
  obtain b where b: "a = answer m b" "answer_body cfg (msg_body m) = Some b"
    using assms(3) by (cases "msg_body m") (auto simp: frob_reply_def answer_body_def)
  then show ?thesis using answer_msg_ok [OF assms(1,2)] by simp
qed

lemma reply_hardcoded:
  assumes "msg_ok m" "frob_reply cfg m = Some (Some a)"
  shows "\<exists>t. choose_hardcoded_response (hdr_type (msg_header m)) = Inr t \<and> t \<noteq> FROB_NONE \<and> t \<noteq> FROB_S2
    \<and> hdr_type (msg_header m) \<noteq> FROB_T2 \<and> hardcoded_message cfg (hdr_token (msg_header m)) t = Inr a"
  using assms
  by (cases "msg_body m") (auto simp: frob_reply_def msg_ok_def choose_hardcoded_response_def frob_enum
      FROB_NONE_def hardcoded_message_def daemon_hardcoded_body_same construct_hardcoded_message_body_def answer_def)

lemma reply_none:
  assumes "msg_ok m" "frob_reply cfg m = Some None"
  shows "choose_hardcoded_response (hdr_type (msg_header m)) = Inr FROB_NONE"
  using assms
  by (cases "msg_body m") (auto simp: frob_reply_def msg_ok_def choose_hardcoded_response_def frob_enum)

lemma reply_destination:
  assumes "msg_ok m" "frob_reply cfg m = Some r"
  shows "choose_destination lock f m = Inr FO_MAIN"
  using assms
  by (cases "msg_body m") (auto simp: frob_reply_def msg_ok_def choose_destination_def
      choose_destination_from_message_def frob_enum frob_mask_defs Let_def)

lemma response_appended:
  assumes "chan_ok (chan s FO_MAIN)" "msg_ok m" "fc_config (fb_cfg s) = cfg" "cfg_ok cfg"
    and "frob_reply cfg m = Some r" "ch_cur (chan s FO_MAIN) + reply_need cfg m < IO_BUF_SIZE"
  shows "\<exists>s'. commission_response repr lock m s = Inr (True, s') \<and> appended FO_MAIN (reply_text cfg m) s s'
    \<and> fb_stats s' = fb_stats s"
proof (cases r)
  case None
  then have "choose_hardcoded_response (hdr_type (msg_header m)) = Inr FROB_NONE"
    using reply_none assms(2,5) by simp
  then show ?thesis
    using reply_destination [OF assms(2,5)] None assms(5)
    by (simp add: commission_response_def reply_text_def Let_def appended_def)
next
  case (Some a)
  obtain t where t: "choose_hardcoded_response (hdr_type (msg_header m)) = Inr t" "t \<noteq> FROB_NONE" "t \<noteq> FROB_S2"
    "hdr_type (msg_header m) \<noteq> FROB_T2" "hardcoded_message cfg (hdr_token (msg_header m)) t = Inr a"
    using reply_hardcoded [OF assms(2)] assms(5) Some by blast
  obtain s' where "commission_hardcoded_message_on_main (hdr_token (msg_header m)) t s = Inr (True, s')"
    "appended FO_MAIN (wire_text a) s s'" "fb_stats s' = fb_stats s"
    using hardcoded_appended [OF assms(1), of "hdr_token (msg_header m)" t a] t(5) assms(3,6) Some assms(5)
      reply_msg_ok [OF assms(2,4)] by (auto simp: reply_need_def)
  then show ?thesis
    using t reply_destination [OF assms(2,5)] Some assms(5)
    by (simp add: commission_response_def reply_text_def Let_def)
qed

section \<open>One frame\<close>

lemma appended_chan_ok: "appended c w s s' \<Longrightarrow> chan_ok (chan s c) \<Longrightarrow> chan_ok (chan s' c)"
  by (simp add: appended_def chan_ok_def)

lemma appended_cur: "appended c w s s' \<Longrightarrow> ch_cur (chan s' c) = ch_cur (chan s c) + length w"
  by (simp add: appended_def)

lemma appended_cfg: "appended c w s s' \<Longrightarrow> fb_cfg s' = fb_cfg s"
  by (simp add: appended_def)

lemma appended_flags:
  "appended c w s s' \<Longrightarrow> appended c w s (s'\<lparr>fb_ping := b, fb_timer_ping := v\<rparr>)"
  "appended c w s s' \<Longrightarrow> appended c w s (s'\<lparr>fb_stats := st\<rparr>)"
  by (auto simp: appended_def)

lemma handle_appended:
  assumes "chan_ok (chan s FO_MAIN)" "msg_ok m" "fc_config (fb_cfg s) = cfg" "cfg_ok cfg"
    and "frob_reply cfg m = Some r" "ch_cur (chan s FO_MAIN) + 1 + reply_need cfg m < IO_BUF_SIZE"
    and "drop p (take pe (ch_buf (chan s FI_MAIN))) = payload (msg_header m) (msg_ops m)" "p < pe"
  shows "\<exists>s'. handle_frame k 0 p pe s = Inr s' \<and> appended FO_MAIN (ACK # reply_text cfg m) s s'
    \<and> received_good (fb_stats s') = received_good (fb_stats s) + 1"
proof -
  obtain s1 where s1: "commission_ack_on_main False s = Inr s1" "appended FO_MAIN [ACK] s s1" "fb_stats s1 = fb_stats s"
    using ack_appended [OF assms(1), of False] assms(6) by auto
  define s2 where "s2 = (if hdr_type (msg_header m) = FROB_T2 then s1\<lparr>fb_ping := False, fb_timer_ping := 0\<rparr> else s1)"
  have s2: "(if hdr_type (msg_header m) = FROB_T2
      then rbind (alarm_set (fb_timer_ping s1) 0) (\<lambda>v. Inr (s1\<lparr>fb_ping := False, fb_timer_ping := v\<rparr>))
      else Inr s1) = Inr s2" "appended FO_MAIN [ACK] s s2" "fb_stats s2 = fb_stats s"
    using s1 appended_flags(1) [OF s1(2)] by (auto simp: s2_def alarm_set_def)
  have "\<exists>s'. commission_response (k_repr k) (k_lock k) m s2 = Inr (True, s') \<and> appended FO_MAIN (reply_text cfg m) s2 s'
    \<and> fb_stats s' = fb_stats s2"
    using appended_chan_ok [OF s2(2) assms(1)] assms(2-6) appended_cur [OF s2(2)] appended_cfg [OF s2(2)]
    by (intro response_appended [where r = r]) auto
  then obtain s3 where s3: "commission_response (k_repr k) (k_lock k) m s2 = Inr (True, s3)"
    "appended FO_MAIN (reply_text cfg m) s2 s3" "fb_stats s3 = fb_stats s2" by blast
  have "parse_message (drop p (take pe (ch_buf (chan s FI_MAIN)))) (blank_msg 0) = Inr (0, m)"
    using msg_ok_facts(5) [OF assms(2), of 0 0] assms(7) by (simp add: blank_msg_def)
  then have "handle_frame k 0 p pe s = Inr (count_good s3)"
    using s1(1) s2(1) s3(1) assms(8) by (simp add: handle_frame_def Let_def)
  moreover have "appended FO_MAIN (ACK # reply_text cfg m) s (count_good s3)"
    using appended_flags(2) [OF appended_trans [OF s2(2) s3(2)]] by (simp add: count_good_def)
  ultimately show ?thesis using s2(3) s3(3) by (simp add: count_good_def)
qed

section \<open>A buffer full of messages\<close>

lemma main_loop_at:
  assumes "find_frame (take (pe - p) (drop p (ch_buf (chan s FI_MAIN)))) = Some (a, e, ok)"
  shows "main_loop k s (fresh_fsm p pe) =
    c_assert (ch_cur (chan s FI_MAIN) < IO_BUF_SIZE)
    (c_assert (p + a < ch_cur (chan s FI_MAIN))
    (c_assert (p + e \<le> ch_cur (chan s FI_MAIN))
    (rbind (handle_frame k (if ok then 0 else EBADMSG) (p + a) (p + e) s) (\<lambda>s1.
     rbind (fnext (ch_cur (chan s1 FI_MAIN)) (p + e)) (\<lambda>f2. main_loop k s1 f2)))))"
proof -
  let ?r = "frob_frame_process (ch_buf (chan s FI_MAIN)) (fresh_fsm p pe)"
  have "fst ?r = (if ok then 0 else EBADMSG)" "fst_p (snd ?r) = p + a" "fst_pe (snd ?r) = Some (p + e)"
    using frame_process_at [where buf = "ch_buf (chan s FI_MAIN)" and p = p and pe = pe] assms by auto
  then show ?thesis
    by (subst main_loop.simps) (auto simp: Let_def split_beta errno_defs)
qed

lemma main_loop_stop:
  assumes "find_frame (take (pe - p) (drop p (ch_buf (chan s FI_MAIN)))) = None"
  shows "\<exists>f. main_loop k s (fresh_fsm p pe) = Inr (s, f)"
  using frame_process_at [where buf = "ch_buf (chan s FI_MAIN)" and p = p and pe = pe] assms
  by (subst main_loop.simps) (auto simp: Let_def split_beta)

definition replies :: "config \<Rightarrow> frob_msg list \<Rightarrow> byte list" where
  "replies cfg ms = concat (map (\<lambda>m. ACK # reply_text cfg m) ms)"

definition total_need :: "config \<Rightarrow> frob_msg list \<Rightarrow> nat" where
  "total_need cfg ms = sum_list (map (\<lambda>m. 1 + reply_need cfg m) ms)"

lemma main_loop_messages:
  assumes "chan_ok (chan s FO_MAIN)" "fc_config (fb_cfg s) = cfg" "cfg_ok cfg"
    and "list_all (\<lambda>m. msg_ok m \<and> frob_reply cfg m \<noteq> None) ms"
    and "ch_cur (chan s FO_MAIN) + total_need cfg ms < IO_BUF_SIZE"
    and "ch_cur (chan s FI_MAIN) < IO_BUF_SIZE" "p \<le> ch_cur (chan s FI_MAIN)"
    and "drop p (take (ch_cur (chan s FI_MAIN)) (ch_buf (chan s FI_MAIN))) = concat (map wire_text ms)"
    and "length (ch_buf (chan s FI_MAIN)) = IO_BUF_SIZE"
  shows "\<exists>s' f'. main_loop k s (fresh_fsm p (ch_cur (chan s FI_MAIN))) = Inr (s', f')
    \<and> appended FO_MAIN (replies cfg ms) s s'
    \<and> received_good (fb_stats s') = received_good (fb_stats s) + of_nat (length ms)"
  using assms
proof (induction ms arbitrary: s p)
  case Nil
  let ?ch = "chan s FI_MAIN"
  have "find_frame [] = None" by (simp add: find_frame_def Let_def)
  then have "find_frame (take (ch_cur ?ch - p) (drop p (ch_buf ?ch))) = None"
    using Nil.prems(7,8) by (simp add: take_drop)
  then show ?case
    using main_loop_stop [of "ch_cur ?ch" p s k] by (auto simp: replies_def)
next
  case (Cons m ms)
  let ?ch = "chan s FI_MAIN"
  let ?n = "length (wire_text m)" and ?cur = "ch_cur ?ch"
  have m: "msg_ok m" "frob_reply cfg m \<noteq> None" using Cons.prems(4) by auto
  have inp: "take (?cur - p) (drop p (ch_buf ?ch)) = wire_text m @ concat (map wire_text ms)"
    using Cons.prems(7,8) by (simp add: take_drop)
  have n3: "3 < ?n"
    using payload_nonempty [of "msg_header m" "msg_ops m"] by (simp add: wire_text_def del: payload_nonempty)
  have "length (take (?cur - p) (drop p (ch_buf ?ch))) = ?cur - p"
    using Cons.prems(6,9) by simp
  then have le: "p + ?n \<le> ?cur" using inp n3 Cons.prems(7) by (simp split: if_splits)
  have find: "find_frame (take (?cur - p) (drop p (ch_buf ?ch))) = Some (1, ?n - 2, True)"
    using find_wire_text [OF m(1)] inp by simp
  have slice: "drop (p + 1) (take (p + (?n - 2)) (ch_buf ?ch)) = payload (msg_header m) (msg_ops m)"
  proof -
    have "drop (p + 1) (take (p + (?n - 2)) (ch_buf ?ch)) = drop 1 (take (?n - 2) (drop p (ch_buf ?ch)))"
      by (simp add: take_drop add.commute)
    also have "take (?n - 2) (drop p (ch_buf ?ch)) = take (?n - 2) (take (?cur - p) (drop p (ch_buf ?ch)))"
      using le by (simp add: min_def)
    finally show ?thesis using inp wire_inner [of m "concat (map wire_text ms)"] by simp
  qed
  obtain r where r: "frob_reply cfg m = Some r" using m(2) by auto
  have "ch_cur (chan s FO_MAIN) + 1 + reply_need cfg m < IO_BUF_SIZE" "p + 1 < p + (?n - 2)"
    using Cons.prems(5) n3 by (simp_all add: total_need_def)
  then obtain s1 where s1: "handle_frame k 0 (p + 1) (p + (?n - 2)) s = Inr s1"
    "appended FO_MAIN (ACK # reply_text cfg m) s s1"
    "received_good (fb_stats s1) = received_good (fb_stats s) + 1"
    using handle_appended [OF Cons.prems(1) m(1) Cons.prems(2,3) r _ slice, of k] by blast
  have in_same: "chan s1 FI_MAIN = ?ch" using s1(2) by (simp add: appended_def)
  have p2: "p + (?n - 2) + 2 = p + ?n" using n3 by simp
  have "\<exists>s' f'. main_loop k s1 (fresh_fsm (p + ?n) (ch_cur (chan s1 FI_MAIN))) = Inr (s', f')
      \<and> appended FO_MAIN (replies cfg ms) s1 s'
      \<and> received_good (fb_stats s') = received_good (fb_stats s1) + of_nat (length ms)"
  proof (rule Cons.IH)
    show "chan_ok (chan s1 FO_MAIN)" by (rule appended_chan_ok [OF s1(2) Cons.prems(1)])
    show "fc_config (fb_cfg s1) = cfg" using appended_cfg [OF s1(2)] Cons.prems(2) by simp
    show "ch_cur (chan s1 FO_MAIN) + total_need cfg ms < IO_BUF_SIZE"
      using appended_cur [OF s1(2)] Cons.prems(5) reply_text_need [of cfg m] by (simp add: total_need_def)
    have "drop (p + ?n) (take ?cur (ch_buf ?ch)) = drop ?n (drop p (take ?cur (ch_buf ?ch)))"
      by (simp add: add.commute)
    also have "\<dots> = concat (map wire_text ms)" using Cons.prems(8) by simp
    finally show "drop (p + ?n) (take (ch_cur (chan s1 FI_MAIN)) (ch_buf (chan s1 FI_MAIN))) = concat (map wire_text ms)"
      using in_same by simp
  qed (use Cons.prems in_same le in auto)
  then obtain s' f' where s': "main_loop k s1 (fresh_fsm (p + ?n) ?cur) = Inr (s', f')"
    "appended FO_MAIN (replies cfg ms) s1 s'"
    "received_good (fb_stats s') = received_good (fb_stats s1) + of_nat (length ms)"
    using in_same by auto
  have "fnext ?cur (p + (?n - 2)) = Inr (fresh_fsm (p + ?n) ?cur)"
    unfolding fnext_def p2 using le by simp
  then have "main_loop k s (fresh_fsm p ?cur) = Inr (s', f')"
    using main_loop_at [OF find, of k] s1(1) s'(1) in_same Cons.prems(6) le n3 by simp
  moreover have "appended FO_MAIN (replies cfg (m # ms)) s s'"
    using appended_trans [OF s1(2) s'(2)] by (simp add: replies_def)
  ultimately show ?case using s1(3) s'(3) by (simp add: add.assoc)
qed

text \<open>The whole of \<open>process_main\<close>, in the state the event loop starts with.\<close>

lemma loop_fsm_fresh: "loop_fsm\<lparr>fst_pe := Some n\<rparr> = fresh_fsm 0 n"
  by (simp add: loop_fsm_def fresh_fsm_def)

lemma process_main_messages:
  assumes "chan_ok (chan s FO_MAIN)" "fc_config (fb_cfg s) = cfg" "cfg_ok cfg"
    and "list_all (\<lambda>m. msg_ok m \<and> frob_reply cfg m \<noteq> None) ms"
    and "ch_cur (chan s FO_MAIN) + total_need cfg ms < IO_BUF_SIZE"
    and "length (ch_buf (chan s FI_MAIN)) = IO_BUF_SIZE" "ch_cur (chan s FI_MAIN) < IO_BUF_SIZE"
    and "take (ch_cur (chan s FI_MAIN)) (ch_buf (chan s FI_MAIN)) = concat (map wire_text ms)"
  shows "\<exists>s' f'. process_main k s loop_fsm = Inr (s', f') \<and> ch_cur (chan s' FI_MAIN) = 0
    \<and> ch_cur (chan s' FO_MAIN) = ch_cur (chan s FO_MAIN) + length (replies cfg ms)
    \<and> take (ch_cur (chan s' FO_MAIN)) (ch_buf (chan s' FO_MAIN)) =
        take (ch_cur (chan s FO_MAIN)) (ch_buf (chan s FO_MAIN)) @ replies cfg ms
    \<and> received_good (fb_stats s') = received_good (fb_stats s) + of_nat (length ms)"
proof -
  obtain s1 f1 where s1: "main_loop k s (fresh_fsm 0 (ch_cur (chan s FI_MAIN))) = Inr (s1, f1)"
    "appended FO_MAIN (replies cfg ms) s s1"
    "received_good (fb_stats s1) = received_good (fb_stats s) + of_nat (length ms)"
    using main_loop_messages [OF assms(1-5,7), of 0 k] assms(6,8) by auto
  then show ?thesis by (auto simp: process_main_def loop_fsm_fresh appended_def)
qed

section \<open>Payments\<close>

text \<open>Where a payment goes when its channel is free.\<close>

definition payment_channel :: "frob_s1 \<Rightarrow> channel" where
  "payment_channel m = (case s1_transaction_type m of TRANSACTION_TYPE_PAYMENT \<Rightarrow> NO_PAYMENT | TRANSACTION_TYPE_VOID \<Rightarrow> NO_STORAGE)"

lemma payment_destination:
  assumes "hdr_type (msg_header m) = FROB_S1" "msg_body m = S1 b"
  shows "choose_destination_from_message m = Inr (payment_channel b)" "payment_channel b \<noteq> FO_MAIN"
  using assms
  by (auto simp: choose_destination_from_message_def payment_channel_def frob_enum frob_mask_defs Let_def
      split: FrobTransactionType.splits)

lemma payment_forwarded:
  assumes "hdr_type (msg_header m) = FROB_S1" "msg_body m = S1 b"
    and "lock (ch_fd (chan s (payment_channel b))) = Locked"
  shows "commission_response repr lock m s = commission_native_message repr (payment_channel b) m s"
  using payment_destination [OF assms(1,2)] assms(3)
  by (simp add: commission_response_def choose_destination_def)

lemma payment_busy:
  assumes "hdr_type (msg_header m) = FROB_S1" "msg_body m = S1 b"
    and "lock (ch_fd (chan s (payment_channel b))) = Lock_Busy"
  shows "commission_response repr lock m s = commission_frame_on_main (hdr_token (msg_header m)) (fc_fallback_s2 (fb_cfg s)) s"
  using payment_destination [OF assms(1,2)] assms(1,3)
  by (simp add: commission_response_def choose_destination_def choose_hardcoded_response_def frob_enum FROB_NONE_def Let_def)

lemma payment_busy_reply:
  assumes "hdr_type (msg_header m) = FROB_S1" "msg_body m = S1 b"
    and "lock (ch_fd (chan s (payment_channel b))) = Lock_Busy"
    and "unat (hdr_token (msg_header m)) < 2 ^ 24" "fc_fallback_s2 (fb_cfg s) = fallback_s2"
    and "chan_ok (chan s FO_MAIN)" "ch_cur (chan s FO_MAIN) + 64 < IO_BUF_SIZE - 1"
  defines "p \<equiv> print_X (unat (hdr_token (msg_header m))) @ FS # fallback_s2"
  shows "\<exists>s'. commission_response repr lock m s = Inr (True, s') \<and> appended FO_MAIN (frame_of p) s s'"
proof -
  have "length fallback_s2 = 51" by (simp add: fallback_s2_def)
  then have "length p \<le> 58" using token_text_length [OF assms(4)] by (simp add: p_def)
  then obtain s' where "commission_frame_on_main (hdr_token (msg_header m)) fallback_s2 s = Inr (True, s')"
    "appended FO_MAIN (frame_of p) s s'"
    using frame_appended [OF assms(6) p_def [THEN meta_eq_to_obj_eq]] fallback_token fallback_parses [OF assms(4)] assms(7)
    unfolding p_def by fastforce
  then show ?thesis
    using payment_busy [where lock = lock and s = s and repr = repr, OF assms(1-3)] assms(5) by simp
qed

section \<open>Pings\<close>

lemma ping_queued:
  assumes "chan_ok (chan s FO_MAIN)" "ch_cur (chan s FO_MAIN) + 16 < IO_BUF_SIZE - 1"
    and "compute_next_token (device_topo (cfg_parameters (fc_config (fb_cfg s)))) s = (t, s1)"
  shows "\<exists>s'. commission_ping_on_main s = Inr (1, s') \<and> fb_ping s' \<and> fb_ack s'
    \<and> appended FO_MAIN (frame_of (print_X (unat t) @ FS # ping_body)) s s'"
proof -
  have t: "unat t < 2 ^ 24" by (rule next_token_header [OF assms(3)])
  have s1: "s1 = s\<lparr>fb_token := t\<rparr>" using assms(3) by (auto simp: compute_next_token_def Let_def)
  have "length (print_X (unat t) @ FS # ping_body) \<le> 10" using token_text_length [OF t] by (simp add: ping_body_def)
  then have "\<exists>s'. commission_frame_on_main t ping_body s1 = Inr (True, s')
      \<and> appended FO_MAIN (frame_of (print_X (unat t) @ FS # ping_body)) s1 s' \<and> fb_ack s' \<and> fb_stats s' = fb_stats s1"
    using assms(1,2) s1 by (intro frame_appended [OF _ refl ping_token [OF t] ping_parses [OF t]]) auto
  then obtain s' where s': "commission_frame_on_main t ping_body s1 = Inr (True, s')" "fb_ack s'"
    "appended FO_MAIN (frame_of (print_X (unat t) @ FS # ping_body)) s1 s'" by blast
  then have "appended FO_MAIN (frame_of (print_X (unat t) @ FS # ping_body)) s (s'\<lparr>fb_ping := True\<rparr>)"
    using s1 by (auto simp: appended_def)
  then show ?thesis
    using s' assms(1,3) by (simp add: commission_ping_on_main_def chan_ok_def)
qed

section \<open>Missing acknowledgements\<close>

text \<open>
  A write empties the buffer, so when the timer of the acknowledgement expires and marks the channel
  for writing again, there is nothing to write: the assertion of the write fails.
\<close>

lemma retransmission_aborts:
  assumes "perform_pending_write k FO_MAIN s = Inr s1" "fs_eset (fb_fs s1) = {}"
    and "handle_signal k (Sig_Alrm True Timer_Ack) s1 = Inr s2" "0 \<le> ch_fd (chan s1 FO_MAIN)"
  shows "perform_pending_on k' FO_MAIN s2 = Inl Assert_Failed"
proof -
  have "ch_cur (chan s1 FO_MAIN) = 0"
    using assms(1) by (auto simp: perform_pending_write_def Let_def rbind_eq_Inr split: if_splits)
  moreover have "set_wset FO_MAIN s1 = Inr s2" using assms(3,4) by (auto simp: handle_signal_def)
  ultimately show ?thesis
    using assms(2,4)
    by (auto simp: perform_pending_on_def perform_pending_write_def set_wset_def FD_SET_def Let_def split: if_splits)
qed

text \<open>
  A write that wants an acknowledgement starts its timer and empties the buffer; when the timer runs, it
  fails; when no acknowledgement is awaited, it only empties the buffer.
\<close>

lemma first_write:
  assumes "fb_ack s" "\<not> fb_ping s" "fb_timer_ack s = 0" "0 < ch_cur (chan s FO_MAIN)" "ch_cur (chan s FO_MAIN) < IO_BUF_SIZE"
    and "k_write k FO_MAIN (ch_cur (chan s FO_MAIN)) = int (ch_cur (chan s FO_MAIN))"
  shows "perform_pending_write k FO_MAIN s = Inr (set_chan FO_MAIN ((chan s FO_MAIN)\<lparr>ch_cur := 0\<rparr>) (s\<lparr>fb_timer_ack := 3\<rparr>))"
  using assms
  by (simp add: perform_pending_write_def used_space_def alarm_set_def IO_BUF_SIZE_def Let_def is_output_def less_eq_channel_def)

lemma second_write_aborts:
  assumes "fb_ack s" "fb_timer_ack s = 3" "0 < ch_cur (chan s FO_MAIN)" "ch_cur (chan s FO_MAIN) < IO_BUF_SIZE"
    and "k_write k FO_MAIN (ch_cur (chan s FO_MAIN)) = int (ch_cur (chan s FO_MAIN))"
  shows "perform_pending_write k FO_MAIN s = Inl Assert_Failed"
  using assms
  by (simp add: perform_pending_write_def used_space_def alarm_set_def IO_BUF_SIZE_def Let_def is_output_def less_eq_channel_def)

lemma free_write:
  assumes "\<not> fb_ack s" "\<not> fb_ping s" "0 < ch_cur (chan s FO_MAIN)" "ch_cur (chan s FO_MAIN) < IO_BUF_SIZE"
    and "k_write k FO_MAIN (ch_cur (chan s FO_MAIN)) = int (ch_cur (chan s FO_MAIN))"
  shows "perform_pending_write k FO_MAIN s = Inr (set_chan FO_MAIN ((chan s FO_MAIN)\<lparr>ch_cur := 0\<rparr>) s)"
  using assms by (simp add: perform_pending_write_def used_space_def IO_BUF_SIZE_def Let_def is_output_def less_eq_channel_def)

text \<open>Queueing an acknowledgement leaves the timers and what is awaited as they are.\<close>

lemma ack_queued:
  assumes "chan_ok (chan s FO_MAIN)" "ch_cur (chan s FO_MAIN) < IO_BUF_SIZE"
  shows "\<exists>s'. commission_ack_on_main n s = Inr s' \<and> fb_ack s' = fb_ack s \<and> fb_ping s' = fb_ping s
    \<and> fb_timer_ack s' = fb_timer_ack s \<and> ch_cur (chan s' FO_MAIN) = ch_cur (chan s FO_MAIN) + 1"
  using assms by (auto simp: commission_ack_on_main_def write_at_def chan_ok_def set_wset_def FD_SET_def Let_def)

end
