(* ===== verification/Daemon_Start.thy ===== *)
theory Daemon_Start
  imports Startup_Facts Event_Loop
begin

text \<open>
  The start of the stand-alone daemon \<open>frob.c\<close>: \<open>initialize\<close> with all it calls, and \<open>main\<close>.
\<close>

section \<open>Signals and limits\<close>

definition SIGALRM :: nat where "SIGALRM = 14"

definition setup_signalfd :: "int \<Rightarrow> int \<Rightarrow> int outcome" where
  "setup_signalfd procmask sfd = (if procmask \<noteq> 0 then Inl Exited else if sfd = - 1 then Inl Exited else Inr sfd)"

text \<open>The set of blocked signals, and the descriptor.\<close>

definition adjust_signal_delivery :: "int \<Rightarrow> int \<Rightarrow> (nat set \<times> int) outcome" where
  "adjust_signal_delivery procmask sfd =
     rbind (setup_signalfd procmask sfd) (\<lambda>fd. Inr ({SIGALRM, SIGPWR, SIGINT}, fd))"

definition daemon_adjust_rlimit :: "(int \<times> int) option \<Rightarrow> bool \<Rightarrow> int outcome" where
  "daemon_adjust_rlimit getrlimit setrlimit_ok =
     (case getrlimit of
        None \<Rightarrow> Inl Aborted
      | Some (cur, _) \<Rightarrow>
          if \<not> cur > FD_SETSIZE then Inr cur else if \<not> setrlimit_ok then Inl Aborted else Inr FD_SETSIZE)"

section \<open>The environment\<close>

definition daemon_end_pieces :: "byte list \<Rightarrow> byte list option \<Rightarrow> endpoint \<Rightarrow> byte list list" where
  "daemon_end_pieces side connnum ep =
     (if ep = (None, None, None, None) then []
      else ([0x20] @ side @ lit '':'') # endpoint_pieces connnum ep @ [lit '';''])"

text \<open>Here everything goes into one line of 512 bytes; the names of the variables are composed in it as well.\<close>

definition daemon_ucspi_log :: "environment \<Rightarrow> byte list \<Rightarrow> byte list option \<Rightarrow> byte list list outcome" where
  "daemon_ucspi_log env proto connnum =
     rbind (read_endpoint env 512 proto (lit ''REMOTE'')) (\<lambda>remote.
     rbind (read_endpoint env 512 proto (lit ''LOCAL'')) (\<lambda>local.
     rbind (printed 512 ((lit ''proto: '' @ proto @ lit '';'')
         # daemon_end_pieces (lit ''REMOTE'') connnum remote @ daemon_end_pieces (lit ''LOCAL'') None local)) (\<lambda>l.
       Inr [lit ''UCSPI compatible environment detected (''
         @ (if connnum = None then lit ''client'' else lit ''server'') @ lit '')'', l])))"

definition daemon_ucspi_adjust :: "environment \<Rightarrow> byte list \<Rightarrow> frob_state \<Rightarrow> (byte list option \<times> frob_state) outcome" where
  "daemon_ucspi_adjust env proto s =
     rbind (getenvfx env 16 (proto @ lit ''CONNNUM'')) (\<lambda>connnum.
       Inr (connnum,
         if connnum = None
         then set_chan FO_MAIN ((chan s FO_MAIN)\<lparr>ch_fd := 7\<rparr>) (set_chan FI_MAIN ((chan s FI_MAIN)\<lparr>ch_fd := 6\<rparr>) s)
         else s))"

section \<open>The configuration\<close>

text \<open>Unlike the autoresponder, the daemon accepts nothing but a D5 in the file.\<close>

definition daemon_load_d5_from_file :: "kernel_file option \<Rightarrow> frob_d5 outcome" where
  "daemon_load_d5_from_file f =
     rbind (xslurp f 256) (\<lambda>buf.
     rbind (parse_message buf (blank_msg FROB_D5)) (\<lambda>(r, m).
       if r \<noteq> 0 then Inl Exited else body_d5 (msg_body m)))"

section \<open>Testing the channels\<close>

text \<open>\<open>rd\<close> and \<open>wr\<close>: what reading and writing no bytes returns.\<close>

definition test_channel :: "(int \<Rightarrow> int) \<Rightarrow> (int \<Rightarrow> int) \<Rightarrow> channel \<Rightarrow> int \<Rightarrow> int" where
  "test_channel rd wr c fd = (if is_input c then rd fd else if is_output c then wr fd else 0)"

text \<open>The channels for which a line is logged; nothing else happens.\<close>

definition test_all_channels :: "(int \<Rightarrow> int) \<Rightarrow> (int \<Rightarrow> int) \<Rightarrow> frob_state \<Rightarrow> channel list" where
  "test_all_channels rd wr s =
     filter (\<lambda>c. ch_fd (chan s c) \<ge> 0 \<and> test_channel rd wr c (ch_fd (chan s c)) \<noteq> 0) all_channels"

section \<open>initialize\<close>

text \<open>What the daemon finds when it starts.\<close>

record surroundings =
  su_argv :: "byte list list"
  su_env :: environment
  su_d5 :: "kernel_file option"         \<comment> \<open>the file \<open>d5.txt\<close>\<close>
  su_open :: int                        \<comment> \<open>what \<open>open\<close> of the payment channel returns\<close>
  su_read0 :: "int \<Rightarrow> int"
  su_write0 :: "int \<Rightarrow> int"
  su_sigprocmask :: int
  su_signalfd :: int
  su_timers_ok :: bool
  su_getrlimit :: "(int \<times> int) option"
  su_setrlimit_ok :: bool

definition closed_channel :: chstate where
  "closed_channel = \<lparr>ch_fd = - 1, ch_cur = 0, ch_buf = zeros IO_BUF_SIZE\<rparr>"

text \<open>The structure assigned first, and the loop over the channels.\<close>

definition initial_state :: "surroundings \<Rightarrow> frob_d5 \<Rightarrow> frob_state" where
  "initial_state su d5 =
     \<lparr>fb_cfg = \<lparr>fc_config = builtin_config d5, fc_fallback_s2 = fallback_s2\<rparr>,
      fb_stats = \<lparr>received_good = 0, received_bad_lrc = 0, received_bad_parse = 0, received_bad_handled = 0\<rparr>,
      fb_ack = False, fb_ping = False, fb_pings_left = 2, fb_timer_ack = 0, fb_timer_ping = 0, fb_token = 0,
      fb_fs = \<lparr>fs_eset = {}, fs_wset = {}, fs_rset = {}, fs_ch = (\<lambda>_. closed_channel)\<rparr>, fb_maxfd = 0,
      fb_timeout_sec = (if length (su_argv su) \<ge> 2 then sint (word_of_int (atoi (su_argv su ! 1)) :: 16 word) else 0)\<rparr>"

definition set_fd :: "channel \<Rightarrow> int \<Rightarrow> frob_state \<Rightarrow> frob_state" where
  "set_fd c fd s = set_chan c ((chan s c)\<lparr>ch_fd := fd\<rparr>) s"

definition open_payment :: "surroundings \<Rightarrow> frob_state \<Rightarrow> frob_state outcome" where
  "open_payment su s =
     (if length (su_argv su) \<ge> 3
      then (if su_open su = - 1 then Inl Exited else Inr (set_fd NO_PAYMENT (su_open su) s)) else Inr s)"

definition daemon_ucspi :: "environment \<Rightarrow> frob_state \<Rightarrow> frob_state outcome" where
  "daemon_ucspi env s =
     (case env (lit ''PROTO'') of
        None \<Rightarrow> Inr s
      | Some proto \<Rightarrow>
          rbind (daemon_ucspi_adjust env proto s) (\<lambda>(connnum, s').
          rbind (daemon_ucspi_log env proto connnum) (\<lambda>_. Inr s')))"

definition initialize :: "surroundings \<Rightarrow> frob_state outcome" where
  "initialize su =
     rbind (daemon_load_d5_from_file (su_d5 su)) (\<lambda>d5.
     rbind (open_payment su (set_fd FI_MAIN 0 (set_fd FO_MAIN 1 (initial_state su d5)))) (\<lambda>s1.
     rbind (daemon_ucspi (su_env su) s1) (\<lambda>s2.
     rbind (adjust_signal_delivery (su_sigprocmask su) (su_signalfd su)) (\<lambda>(_, sfd).
       let s3 = set_fd II_SIGNAL sfd s2;
           s4 = s3\<lparr>fb_maxfd := get_max_fd (fs_ch (fb_fs s3)),
                   fb_fs := (fb_fs s3)\<lparr>fs_eset := {}, fs_wset := {}\<rparr>\<rparr>
       in if su_timers_ok su then Inr s4 else Inl Aborted))))"

section \<open>main\<close>

text \<open>The exit code, or \<open>None\<close> when the answers of the kernel are used up before the loop ended.\<close>

definition daemon_main :: "surroundings \<Rightarrow> kernel list \<Rightarrow> nat option outcome" where
  "daemon_main su ks =
     rbind (initialize su) (\<lambda>s.
     rbind (daemon_adjust_rlimit (su_getrlimit su) (su_setrlimit_ok su)) (\<lambda>_.
     rbind (event_loop ks s loop_fsm) (\<lambda>(over, _, _). Inr (if over then Some 0 else None))))"

section \<open>Statistics\<close>

text \<open>The whole numbers that are logged on SIGPWR: all messages, the good ones and the three kinds of bad ones
  (the ratio, a floating-point number, is left out).\<close>

definition print_stats :: "statistics \<Rightarrow> nat list" where
  "print_stats st =
     (let bad = unat (received_bad_lrc st) + unat (received_bad_parse st) + unat (received_bad_handled st);
          total = unat (received_good st) + bad
      in [total, unat (received_good st), unat (received_bad_lrc st), unat (received_bad_parse st),
          unat (received_bad_handled st)])"

end
