(* ===== verification/Daemon_Inv.thy ===== *)
theory Daemon_Inv
  imports Daemon_Start
begin

text \<open>
  An invariant of the daemon's event loop, as a property of all states it can reach: no operation makes a
  channel's cursor leave its buffer.
\<close>

section \<open>Buffers\<close>

definition chan_inv :: "chstate \<Rightarrow> bool" where
  "chan_inv ch \<longleftrightarrow> length (ch_buf ch) = IO_BUF_SIZE \<and> ch_cur ch \<le> IO_BUF_SIZE"

definition buf_inv :: "frob_state \<Rightarrow> bool" where
  "buf_inv s \<longleftrightarrow> (\<forall>c. chan_inv (chan s c))"

lemma buf_invD: "buf_inv s \<Longrightarrow> chan_inv (chan s c)"
  by (simp add: buf_inv_def)

lemma buf_inv_set [simp]: "buf_inv s \<Longrightarrow> chan_inv v \<Longrightarrow> buf_inv (set_chan c v s)"
  by (simp add: buf_inv_def)

lemma buf_inv_same: "buf_inv s \<Longrightarrow> fs_ch (fb_fs s') = fs_ch (fb_fs s) \<Longrightarrow> buf_inv s'"
  by (simp add: buf_inv_def)

lemma buf_inv_fields [simp]:
  "buf_inv (s\<lparr>fb_ack := a\<rparr>) = buf_inv s" "buf_inv (s\<lparr>fb_ping := a\<rparr>) = buf_inv s"
  "buf_inv (s\<lparr>fb_timer_ack := n\<rparr>) = buf_inv s" "buf_inv (s\<lparr>fb_timer_ping := n\<rparr>) = buf_inv s"
  "buf_inv (s\<lparr>fb_stats := st\<rparr>) = buf_inv s" "buf_inv (s\<lparr>fb_pings_left := w\<rparr>) = buf_inv s"
  "buf_inv (s\<lparr>fb_token := t\<rparr>) = buf_inv s" "buf_inv (s\<lparr>fb_maxfd := i\<rparr>) = buf_inv s"
  "buf_inv (s\<lparr>fb_timeout_sec := i\<rparr>) = buf_inv s"
  "buf_inv (s\<lparr>fb_fs := (fb_fs s)\<lparr>fs_wset := S\<rparr>\<rparr>) = buf_inv s"
  "buf_inv (s\<lparr>fb_fs := (fb_fs s)\<lparr>fs_rset := S\<rparr>\<rparr>) = buf_inv s"
  "buf_inv (s\<lparr>fb_fs := (fb_fs s)\<lparr>fs_eset := S\<rparr>\<rparr>) = buf_inv s"
  by (simp_all add: buf_inv_def)

lemma chan_inv_simps [simp]:
  "chan_inv (ch\<lparr>ch_fd := i\<rparr>) = chan_inv ch"
  "chan_inv ch \<Longrightarrow> chan_inv (ch\<lparr>ch_cur := 0\<rparr>)"
  "chan_inv ch \<Longrightarrow> length b = IO_BUF_SIZE \<Longrightarrow> chan_inv (ch\<lparr>ch_buf := b\<rparr>)"
  "chan_inv ch \<Longrightarrow> length b = IO_BUF_SIZE \<Longrightarrow> n \<le> IO_BUF_SIZE \<Longrightarrow> chan_inv (ch\<lparr>ch_buf := b, ch_cur := n\<rparr>)"
  by (simp_all add: chan_inv_def)

lemma buf_inv_emptied [simp]: "buf_inv s \<Longrightarrow> chan_inv ((chan s c)\<lparr>ch_cur := 0\<rparr>)"
  using buf_invD [of s c] by simp

text \<open>A store at the cursor keeps the size, and the cursor may move behind what was stored.\<close>

lemma write_at_chan:
  assumes "write_at (ch_buf ch) (ch_cur ch) bs = Inr b" "chan_inv ch"
  shows "length b = IO_BUF_SIZE \<and> ch_cur ch + length bs \<le> IO_BUF_SIZE"
  using assms write_at_length [OF assms(1)] by (auto simp: chan_inv_def write_at_def split: if_splits)

lemma set_wset_inv: "set_wset c s = Inr s' \<Longrightarrow> buf_inv s \<Longrightarrow> buf_inv s'"
  by (auto simp: set_wset_def rbind_eq_Inr)

section \<open>Output\<close>

lemma ack_inv: "buf_inv s \<Longrightarrow> commission_ack_on_main n s = Inr s' \<Longrightarrow> buf_inv s'"
  using buf_invD [of s FO_MAIN]
  by (auto simp: commission_ack_on_main_def Let_def rbind_eq_Inr dest!: write_at_chan elim!: set_wset_inv)

lemma native_inv: "buf_inv s \<Longrightarrow> commission_native_message repr dst m s = Inr (r, s') \<Longrightarrow> buf_inv s'"
  using buf_invD [of s dst]
  by (auto simp: commission_native_message_def Let_def rbind_eq_Inr split: if_splits dest!: write_at_chan
      intro!: buf_inv_set elim!: set_wset_inv)

lemma mcopy_inv: "buf_inv s \<Longrightarrow> mcopy_to c w s = Inr s' \<Longrightarrow> buf_inv s'"
  using buf_invD [of s c]
  by (auto simp: mcopy_to_def Let_def rbind_eq_Inr dest!: write_at_chan)

lemma prompt_inv: "buf_inv s \<Longrightarrow> commission_prompt_on_master s = Inr s' \<Longrightarrow> buf_inv s'"
  by (auto simp: commission_prompt_on_master_def rbind_eq_Inr dest: mcopy_inv set_wset_inv)

lemma hardcoded_inv: "buf_inv s \<Longrightarrow> commission_hardcoded_message_on_main t m s = Inr (r, s') \<Longrightarrow> buf_inv s'"
proof -
  assume inv: "buf_inv s" and run: "commission_hardcoded_message_on_main t m s = Inr (r, s')"
  let ?ch = "chan s FO_MAIN"
  have ch: "chan_inv ?ch" by (rule buf_invD [OF inv])
  obtain resp sp w mem where w: "free_space ?ch = Inr sp" "serialize sp (drop (ch_cur ?ch) (ch_buf ?ch)) resp = Inr (w, mem)"
    and res: "if w < 0 then s' = set_chan FO_MAIN (?ch\<lparr>ch_buf := take (ch_cur ?ch) (ch_buf ?ch) @ mem\<rparr>) s
      else \<exists>s1. set_wset FO_MAIN ((set_chan FO_MAIN (?ch\<lparr>ch_buf := take (ch_cur ?ch) (ch_buf ?ch) @ mem\<rparr>) s)\<lparr>fb_ack := True\<rparr>) = Inr s1
        \<and> s' = set_chan FO_MAIN (?ch\<lparr>ch_buf := take (ch_cur ?ch) (ch_buf ?ch) @ mem, ch_cur := ch_cur ?ch + nat w\<rparr>) s1"
    using run by (auto simp: commission_hardcoded_message_on_main_def Let_def rbind_eq_Inr split: if_splits)
  have sp: "ch_cur ?ch + sp < IO_BUF_SIZE" using w(1) by (auto simp: free_space_def IO_BUF_SIZE_def)
  have "length (take (ch_cur ?ch) (ch_buf ?ch) @ mem) = IO_BUF_SIZE" "nat w \<le> sp"
    using serialize_within [OF w(2)] ch by (auto simp: chan_inv_def)
  then show ?thesis using res ch inv sp by (auto split: if_splits elim!: set_wset_inv intro!: buf_inv_set)
qed

lemma xsnprintf_length: "xsnprintf n mem off w = Inr (mem', k) \<Longrightarrow> length mem' = length mem \<and> k = length w"
  by (auto simp: xsnprintf_def snprintf_at_def rbind_eq_Inr dest: write_at_length split: if_splits)

lemma frame_inv: "buf_inv s \<Longrightarrow> commission_frame_on_main t b s = Inr (r, s') \<Longrightarrow> buf_inv s'"
  using buf_invD [of s FO_MAIN]
  by (auto simp: commission_frame_on_main_def Let_def rbind_eq_Inr free_space_def split: if_splits dest!: xsnprintf_length
      elim!: set_wset_inv intro!: buf_inv_set) (auto simp: chan_inv_def)

lemma response_inv: "buf_inv s \<Longrightarrow> commission_response repr lock m s = Inr (r, s') \<Longrightarrow> buf_inv s'"
  by (auto simp: commission_response_def Let_def rbind_eq_Inr split: if_splits
      dest: native_inv [rotated] hardcoded_inv [rotated] frame_inv [rotated])

lemma ping_inv: "buf_inv s \<Longrightarrow> commission_ping_on_main s = Inr (r, s') \<Longrightarrow> buf_inv s'"
  by (auto simp: commission_ping_on_main_def compute_next_token_def Let_def rbind_eq_Inr split: if_splits
      dest!: frame_inv [rotated])

section \<open>Input\<close>

lemma handle_inv: "buf_inv s \<Longrightarrow> handle_frame k e p pe s = Inr s' \<Longrightarrow> buf_inv s'"
  by (auto simp: handle_frame_def Let_def rbind_eq_Inr count_defs split: if_splits
      dest!: ack_inv [rotated] response_inv [rotated])

lemma main_loop_inv: "buf_inv s \<Longrightarrow> main_loop k s f = Inr (s', f') \<Longrightarrow> buf_inv s'"
proof (induction k s f arbitrary: s' f' rule: main_loop.induct)
  case (1 k s f)
  obtain e f1 where ef: "frob_frame_process (ch_buf (chan s FI_MAIN)) f = (e, f1)" by fastforce
  show ?case
  proof (cases "e = EAGAIN")
    case True
    then show ?thesis using 1(2,3) ef by (subst (asm) main_loop.simps) (simp add: Let_def)
  next
    case False
    with 1(3) ef obtain pe s1 f2 where "fst_pe f1 = Some pe" "ch_cur (chan s FI_MAIN) < IO_BUF_SIZE"
      "fst_p f1 < ch_cur (chan s FI_MAIN)" "pe \<le> ch_cur (chan s FI_MAIN)"
      "handle_frame k e (fst_p f1) pe s = Inr s1" "fnext (ch_cur (chan s1 FI_MAIN)) pe = Inr f2"
      "main_loop k s1 f2 = Inr (s', f')"
      by (subst (asm) main_loop.simps) (auto simp: Let_def rbind_eq_Inr split: option.splits)
    then show ?thesis using 1(1) [OF refl ef [symmetric] False] handle_inv [OF 1(2)] by blast
  qed
qed

lemma process_main_inv: "buf_inv s \<Longrightarrow> process_main k s f = Inr (s', f') \<Longrightarrow> buf_inv s'"
  by (auto simp: process_main_def rbind_eq_Inr dest!: main_loop_inv [rotated] intro!: buf_inv_set)

lemma close_inv [simp]: "buf_inv s \<Longrightarrow> buf_inv (close_main_channel s)"
  using buf_invD [of s FI_MAIN] buf_invD [of s FO_MAIN] by (simp add: close_main_channel_def Let_def)

lemma start_master_inv: "buf_inv s \<Longrightarrow> start_master_channel k s = Inr s' \<Longrightarrow> buf_inv s'"
proof -
  assume inv: "buf_inv s" and run: "start_master_channel k s = Inr s'"
  have "buf_inv (set_chan CI_MASTER ((chan s CI_MASTER)\<lparr>ch_fd := a\<rparr>) (set_chan CO_MASTER ((chan s CO_MASTER)\<lparr>ch_fd := b\<rparr>) s))" for a b
    using buf_invD [OF inv] inv by simp
  then show ?thesis
    using run by (auto simp: start_master_channel_def Let_def rbind_eq_Inr dest!: mcopy_inv [rotated] prompt_inv [rotated])
qed

lemma signal_inv: "buf_inv s \<Longrightarrow> handle_signal k i s = Inr s' \<Longrightarrow> buf_inv s'"
  by (auto simp: handle_signal_def split: siginfo.splits if_splits timer_id.splits
      dest: start_master_inv [rotated] set_wset_inv)

lemma signals_inv: "buf_inv s \<Longrightarrow> handle_signals k done is s = Inr s' \<Longrightarrow> buf_inv s'"
  by (induction k "done" "is" s rule: handle_signals.induct)
    (auto simp: rbind_eq_Inr split: if_splits dest: signal_inv)

lemma process_signal_inv: "buf_inv s \<Longrightarrow> process_signal k s = Inr s' \<Longrightarrow> buf_inv s'"
  by (auto simp: process_signal_def Let_def rbind_eq_Inr dest!: signals_inv [rotated] intro!: buf_inv_set)

lemma serialize_all_inv: "buf_inv s \<Longrightarrow> serialize_all k ms s = Inr s' \<Longrightarrow> buf_inv s'"
proof (induction k ms s rule: serialize_all.induct)
  case (2 k m ms s)
  let ?ch = "chan s FO_MAIN"
  have ch: "chan_inv ?ch" by (rule buf_invD [OF "2.prems"(1)])
  obtain sp w mem where w: "free_space ?ch = Inr sp" "serialize sp (drop (ch_cur ?ch) (ch_buf ?ch)) m = Inr (w, mem)"
    "serialize_all k ms (set_chan FO_MAIN (?ch\<lparr>ch_buf := take (ch_cur ?ch) (ch_buf ?ch) @ mem\<rparr>) s) = Inr s'"
    "\<not> (hdr_type (msg_header m) = FROB_S2 \<and> \<not> k_unlock_ok k)"
    using "2.prems"(2) by (auto simp: Let_def rbind_eq_Inr split: if_splits)
  have "length (take (ch_cur ?ch) (ch_buf ?ch) @ mem) = IO_BUF_SIZE"
    using serialize_within [OF w(2)] ch by (auto simp: chan_inv_def)
  then have inv: "buf_inv (set_chan FO_MAIN (?ch\<lparr>ch_buf := take (ch_cur ?ch) (ch_buf ?ch) @ mem\<rparr>) s)"
    using ch "2.prems"(1) by simp
  show ?case by (rule "2.IH" [OF w(4) refl refl w(1,2) refl inv w(3)])
qed simp

lemma process_device_inv: "buf_inv s \<Longrightarrow> process_device k s = Inr s' \<Longrightarrow> buf_inv s'"
  by (auto simp: process_device_def Let_def rbind_eq_Inr dest: serialize_all_inv)

lemma process_channel_inv: "buf_inv s \<Longrightarrow> process_channel k c s f = Inr (s', f') \<Longrightarrow> buf_inv s'"
  by (auto simp: process_channel_def process_master_def rbind_eq_Inr split: channel.splits
      dest: process_signal_inv prompt_inv process_main_inv process_device_inv)

section \<open>Pending input and output\<close>

lemma pending_write_inv: "buf_inv s \<Longrightarrow> perform_pending_write k i s = Inr s' \<Longrightarrow> buf_inv s'"
  using buf_invD [of s i]
  by (auto simp: perform_pending_write_def Let_def rbind_eq_Inr split: if_splits intro!: buf_inv_set)

lemma closed_inv: "buf_inv s \<Longrightarrow> channel_closed i s = Inr s' \<Longrightarrow> buf_inv s'"
proof -
  assume inv: "buf_inv s" and run: "channel_closed i s = Inr s'"
  let ?t = "set_chan i ((chan s i)\<lparr>ch_fd := - 1\<rparr>) (s\<lparr>fb_fs := (fb_fs s)\<lparr>fs_rset := fs_rset (fb_fs s) - {ch_fd (chan s i)}\<rparr>\<rparr>)"
  have t: "buf_inv ?t" using inv buf_invD [OF inv, of i] by simp
  have "buf_inv (set_chan CO_MASTER ((chan ?t CO_MASTER)\<lparr>ch_fd := - 1\<rparr>) ?t)"
    by (rule buf_inv_set [OF t]) (simp only: chan_inv_simps buf_invD [OF t])
  then show ?thesis using run t close_inv [OF t] by (auto simp: channel_closed_def Let_def split: if_splits)
qed

lemma note_ack_inv: "buf_inv s \<Longrightarrow> note_ack b s = Inr s' \<Longrightarrow> buf_inv s'"
  using buf_invD [of s FO_MAIN]
  by (auto simp: note_ack_def rbind_eq_Inr split: if_splits intro!: buf_inv_set)

lemma note_ack_cur: "note_ack b s = Inr s' \<Longrightarrow> ch_cur (chan s' i) \<le> ch_cur (chan s i)"
  by (auto simp: note_ack_def rbind_eq_Inr split: if_splits)

lemma pending_read_inv: "buf_inv s \<Longrightarrow> perform_pending_read k i s = Inr s' \<Longrightarrow> buf_inv s'"
proof -
  assume inv: "buf_inv s" and run: "perform_pending_read k i s = Inr s'"
  let ?ch = "chan s i"
  have ch: "chan_inv ?ch" by (rule buf_invD [OF inv])
  obtain sp where sp: "free_space ?ch = Inr sp" using run by (auto simp: perform_pending_read_def Let_def rbind_eq_Inr)
  consider "channel_closed i s = Inr s'"
    | bs b s1 where "write_at (ch_buf ?ch) (ch_cur ?ch) bs = Inr b" "note_ack (hd bs) (set_chan i (?ch\<lparr>ch_buf := b\<rparr>) s) = Inr s1"
      "s' = set_chan i ((chan s1 i)\<lparr>ch_cur := ch_cur (chan s1 i) + length bs\<rparr>) s1"
    using run sp by (auto simp: perform_pending_read_def Let_def rbind_eq_Inr split: read_answer.splits if_splits)
  then show ?thesis
  proof cases
    case 1
    then show ?thesis by (rule closed_inv [OF inv])
  next
    case (2 bs b s1)
    have w: "length b = IO_BUF_SIZE" "ch_cur ?ch + length bs \<le> IO_BUF_SIZE" using write_at_chan [OF 2(1) ch] by simp_all
    have s1: "buf_inv s1" using note_ack_inv [OF _ 2(2)] inv ch w(1) by simp
    have "ch_cur (chan s1 i) \<le> ch_cur ?ch" using note_ack_cur [OF 2(2), of i] by simp
    then have "chan_inv ((chan s1 i)\<lparr>ch_cur := ch_cur (chan s1 i) + length bs\<rparr>)"
      using w(2) buf_invD [OF s1, of i] by (simp add: chan_inv_def)
    then show ?thesis using 2(3) s1 by simp
  qed
qed

lemma pending_on_inv: "buf_inv s \<Longrightarrow> perform_pending_on k i s = Inr s' \<Longrightarrow> buf_inv s'"
  by (auto simp: perform_pending_on_def Let_def rbind_eq_Inr split: if_splits
      dest!: pending_write_inv [rotated] pending_read_inv [rotated])

lemma on_channels_inv:
  assumes "\<And>c s s'. buf_inv s \<Longrightarrow> op c s = Inr s' \<Longrightarrow> buf_inv s'"
  shows "buf_inv s \<Longrightarrow> on_channels op cs s = Inr s' \<Longrightarrow> buf_inv s'"
  by (induction cs arbitrary: s) (auto simp: rbind_eq_Inr dest: assms)

lemma pending_io_inv: "buf_inv s \<Longrightarrow> perform_pending_io k s = Inr s' \<Longrightarrow> buf_inv s'"
  unfolding perform_pending_io_def by (rule on_channels_inv [where op = "perform_pending_on k"]) (rule pending_on_inv)

lemma reset_inv: "buf_inv s \<Longrightarrow> reset_fdset i s = Inr s' \<Longrightarrow> buf_inv s'"
  by (auto simp: reset_fdset_def Let_def rbind_eq_Inr split: if_splits elim!: buf_inv_same)

section \<open>One turn of the loop\<close>

lemma wait_inv: "buf_inv s \<Longrightarrow> wait_for_io k s = Inr (l, s') \<Longrightarrow> buf_inv s'"
proof -
  assume inv: "buf_inv s" and run: "wait_for_io k s = Inr (l, s')"
  obtain s1 where s1: "reset_fdsets s = Inr s1" using run by (auto simp: wait_for_io_def rbind_eq_Inr)
  have "buf_inv s1" using on_channels_inv [OF reset_inv inv] s1 by (auto simp: reset_fdsets_def)
  then have "buf_inv (s1\<lparr>fb_fs := (fb_fs s1)\<lparr>fs_rset := a, fs_wset := b, fs_eset := c\<rparr>\<rparr>)" for a b c
    by (rule buf_inv_same) simp
  then show ?thesis
    using run s1 by (auto simp: wait_for_io_def Let_def rbind_eq_Inr split: prod.splits if_splits dest!: ping_inv [rotated])
qed

lemma process_inputs_inv: "buf_inv s \<Longrightarrow> process_inputs k cs s f = Inr (s', f') \<Longrightarrow> buf_inv s'"
  by (induction k cs s f rule: process_inputs.induct)
    (auto simp: rbind_eq_Inr split: if_splits dest: process_channel_inv)

text \<open>A turn of the event loop, as a step between the states at its head.\<close>

inductive daemon_turn :: "frob_state \<times> frame_fsm_state \<Rightarrow> frob_state \<times> frame_fsm_state \<Rightarrow> bool" where
  turn: "wait_for_io k s = Inr (go, s1) \<Longrightarrow> go \<noteq> 0 \<Longrightarrow> perform_pending_io k s1 = Inr s2 \<Longrightarrow>
    process_inputs k (filter is_input all_channels) s2 f = Inr (s3, f3) \<Longrightarrow> daemon_turn (s, f) (s3, f3)"

inductive_cases daemon_turnE: "daemon_turn (s, f) (s', f')"

text \<open>The states the daemon can be in at the head of its loop, whatever it finds and whatever the kernel does.\<close>

inductive reachable :: "frob_state \<times> frame_fsm_state \<Rightarrow> bool" where
  start: "initialize su = Inr s \<Longrightarrow> reachable (s, loop_fsm)"
| step: "reachable x \<Longrightarrow> daemon_turn x y \<Longrightarrow> reachable y"

lemma turn_inv: "daemon_turn (s, f) (s', f') \<Longrightarrow> buf_inv s \<Longrightarrow> buf_inv s'"
proof (erule daemon_turnE)
  fix k go s1 s2
  assume "buf_inv s" "wait_for_io k s = Inr (go, s1)" "perform_pending_io k s1 = Inr s2"
    and last: "process_inputs k (filter is_input all_channels) s2 f = Inr (s', f')"
  then have "buf_inv s2" using wait_inv pending_io_inv by blast
  then show "buf_inv s'" by (rule process_inputs_inv [OF _ last])
qed

lemma event_loop_turns:
  assumes "event_loop ks s f = Inr (over, s', f')" "reachable (s, f)"
  shows "\<exists>t g. reachable (t, g) \<and> (if over then \<exists>k. wait_for_io k t = Inr (0, s') else t = s' \<and> g = f')"
  using assms
proof (induction ks s f rule: event_loop.induct)
  case (2 k ks s f)
  obtain go s1 where w: "wait_for_io k s = Inr (go, s1)" using "2.prems"(1) by (auto simp: rbind_eq_Inr)
  show ?case
  proof (cases "go = 0")
    case True
    then show ?thesis using "2.prems" w by auto
  next
    case False
    then obtain s2 s3 f3 where r: "perform_pending_io k s1 = Inr s2"
      "process_inputs k (filter is_input all_channels) s2 f = Inr (s3, f3)" "event_loop ks s3 f3 = Inr (over, s', f')"
      using "2.prems"(1) w by (auto simp: rbind_eq_Inr)
    have "daemon_turn (s, f) (s3, f3)" by (rule turn [OF w False r(1,2)])
    then have "reachable (s3, f3)" using "2.prems"(2) by (rule step [rotated])
    then show ?thesis using "2.IH" [OF w refl False r(1,2) refl r(3)] by simp
  qed
qed auto

lemma set_fd_inv [simp]: "buf_inv s \<Longrightarrow> buf_inv (set_fd c fd s)"
  using buf_invD [of s c] by (simp add: set_fd_def)

lemma initialize_inv: "initialize su = Inr s \<Longrightarrow> buf_inv s"
proof -
  assume run: "initialize su = Inr s"
  have init: "buf_inv (initial_state su d5)" for d5
    by (simp add: buf_inv_def initial_state_def closed_channel_def chan_inv_def)
  have adj: "buf_inv t \<Longrightarrow> daemon_ucspi (su_env su) t = Inr t' \<Longrightarrow> buf_inv t'" for t t'
    using buf_invD [of t FI_MAIN] buf_invD [of t FO_MAIN]
    by (auto simp: daemon_ucspi_def daemon_ucspi_adjust_def rbind_eq_Inr split: option.splits)
  have pay: "buf_inv t \<Longrightarrow> open_payment su t = Inr t' \<Longrightarrow> buf_inv t'" for t t'
    by (auto simp: open_payment_def split: if_splits)
  obtain d5 s1 s2 sfd where "open_payment su (set_fd FI_MAIN 0 (set_fd FO_MAIN 1 (initial_state su d5))) = Inr s1"
    "daemon_ucspi (su_env su) s1 = Inr s2" and s: "fs_ch (fb_fs s) = fs_ch (fb_fs (set_fd II_SIGNAL sfd s2))"
    using run by (auto simp: initialize_def Let_def rbind_eq_Inr split: if_splits)
  then have "buf_inv s2" using init pay adj by (metis set_fd_inv)
  then show ?thesis using s buf_inv_same set_fd_inv by blast
qed

lemma reachable_inv: "reachable x \<Longrightarrow> buf_inv (fst x)"
proof (induction rule: reachable.induct)
  case (start su s)
  then show ?case by (simp add: initialize_inv)
next
  case (step x y)
  then show ?case using turn_inv by (metis prod.collapse)
qed

lemma event_loop_inv:
  assumes "initialize su = Inr s" "event_loop ks s loop_fsm = Inr (over, s', f')"
  shows "buf_inv s'"
proof -
  obtain t g where "reachable (t, g)" "if over then \<exists>k. wait_for_io k t = Inr (0, s') else t = s' \<and> g = f'"
    using event_loop_turns [OF assms(2) start [OF assms(1)]] by blast
  then show ?thesis using reachable_inv [of "(t, g)"] wait_inv by (auto split: if_splits)
qed

section \<open>Queueing, when the invariant holds\<close>

lemma inv_chan_ok: "chan_inv ch \<Longrightarrow> 0 \<le> ch_fd ch \<Longrightarrow> ch_fd ch < FD_SETSIZE \<Longrightarrow> chan_ok ch"
  by (simp add: chan_inv_def chan_ok_def)

lemma native_exact:
  assumes "chan_inv (chan s c)" "0 \<le> ch_fd (chan s c)" "ch_fd (chan s c) < FD_SETSIZE" "msg_magic m = FROB_MAGIC" "repr m \<noteq> []"
  shows "if ch_cur (chan s c) = 4096 then commission_native_message repr c m s = Inl Assert_Failed
    else if ch_cur (chan s c) + length (repr m) < 4095
    then \<exists>s'. commission_native_message repr c m s = Inr (True, s') \<and> appended c (repr m) s s'
    else commission_native_message repr c m s = Inr (False, s)"
  using native_appended [where repr = repr, OF inv_chan_ok [OF assms(1-3)] assms(4,5)] native_full [where repr = repr, OF assms(4)] assms(1,4)
  by (auto simp: IO_BUF_SIZE_def chan_inv_def commission_native_message_def free_space_def Let_def)

lemma ack_exact:
  assumes "chan_inv (chan s FO_MAIN)" "0 \<le> ch_fd (chan s FO_MAIN)" "ch_fd (chan s FO_MAIN) < FD_SETSIZE"
  shows "if ch_cur (chan s FO_MAIN) = 4096 then commission_ack_on_main nak s = Inl Out_Of_Bounds_Write
    else \<exists>s'. commission_ack_on_main nak s = Inr s' \<and> appended FO_MAIN [if nak then NAK else ACK] s s'"
  using ack_appended [OF inv_chan_ok [OF assms], of nak] assms(1)
  by (auto simp: IO_BUF_SIZE_def chan_inv_def commission_ack_on_main_def write_at_def Let_def)

text \<open>A text that does not fit is cut, behind what is queued, and the frame is given up.\<close>

lemma frame_refused:
  assumes "chan_inv (chan s FO_MAIN)" "ch_cur (chan s FO_MAIN) < 4096" "4095 \<le> ch_cur (chan s FO_MAIN) + length (frame_format t body)"
  shows "\<exists>s'. commission_frame_on_main t body s = Inr (False, s') \<and> appended FO_MAIN [] s s'"
proof -
  let ?ch = "chan s FO_MAIN" and ?w = "frame_format t body"
  let ?sp = "4095 - ch_cur ?ch"
  have sp: "free_space ?ch = Inr ?sp" "?sp \<le> length ?w" using assms(2,3) by (simp_all add: free_space_def IO_BUF_SIZE_def)
  have len: "length (ch_buf ?ch) = 4096" using assms(1) by (simp add: chan_inv_def IO_BUF_SIZE_def)
  have "\<exists>buf. snprintf_at ?sp (ch_buf ?ch) (ch_cur ?ch) ?w = Inr buf
    \<and> take (ch_cur ?ch) buf = take (ch_cur ?ch) (ch_buf ?ch) \<and> length buf = length (ch_buf ?ch)"
  proof (cases "ch_cur ?ch = 4095")
    case True
    then show ?thesis by (simp add: snprintf_at_def)
  next
    case False
    then have n: "?sp \<noteq> 0" "length (take (?sp - 1) ?w @ [0]) = ?sp" "ch_cur ?ch + ?sp = 4095" using sp(2) assms(2) by simp_all
    have "snprintf_at ?sp (ch_buf ?ch) (ch_cur ?ch) ?w =
        Inr (take (ch_cur ?ch) (ch_buf ?ch) @ (take (?sp - 1) ?w @ [0]) @ drop 4095 (ch_buf ?ch))"
      unfolding snprintf_at_def write_at_def n(2,3) using n(1) len by (simp del: length_append)
    then show ?thesis using n len assms(2) by (simp del: append_assoc)
  qed
  then obtain buf where buf: "snprintf_at ?sp (ch_buf ?ch) (ch_cur ?ch) ?w = Inr buf"
    "take (ch_cur ?ch) buf = take (ch_cur ?ch) (ch_buf ?ch)" "length buf = length (ch_buf ?ch)"
    by blast
  then have "xsnprintf ?sp (ch_buf ?ch) (ch_cur ?ch) ?w = Inr (buf, length ?w)" by (simp add: xsnprintf_def)
  then have "commission_frame_on_main t body s = Inr (False, set_chan FO_MAIN (?ch\<lparr>ch_buf := buf\<rparr>) s)"
    using sp by (simp add: commission_frame_on_main_def Let_def)
  moreover have "appended FO_MAIN [] s (set_chan FO_MAIN (?ch\<lparr>ch_buf := buf\<rparr>) s)"
    using buf(2,3) by (simp add: appended_def)
  ultimately show ?thesis by blast
qed

lemma frame_exact:
  assumes "chan_inv (chan s FO_MAIN)" "0 \<le> ch_fd (chan s FO_MAIN)" "ch_fd (chan s FO_MAIN) < FD_SETSIZE"
    and body: "body \<in> {ping_body, fallback_s2}" and t: "unat t < 2 ^ 24"
  shows "if ch_cur (chan s FO_MAIN) = 4096 then commission_frame_on_main t body s = Inl Assert_Failed
    else if ch_cur (chan s FO_MAIN) + length (frame_format t body) < 4095
    then \<exists>s'. commission_frame_on_main t body s = Inr (True, s') \<and> appended FO_MAIN (frame_of (print_X (unat t) @ FS # body)) s s'
    else \<exists>s'. commission_frame_on_main t body s = Inr (False, s') \<and> appended FO_MAIN [] s s'"
proof -
  have le: "ch_cur (chan s FO_MAIN) \<le> 4096" using assms(1) by (simp add: chan_inv_def IO_BUF_SIZE_def)
  have len: "length (frame_format t body) = length (print_X (unat t) @ FS # body) + 3" by (simp add: frame_format_text)
  have "ETX \<notin> set (print_X (unat t) @ FS # body)" using body ping_token [OF t] fallback_token [of t] by auto
  moreover obtain m where "parse_message (print_X (unat t) @ FS # body) (blank_msg 0) = Inr (0, m)"
    using body ping_parses [OF t] fallback_parses [OF t] by blast
  ultimately have "\<exists>s'. commission_frame_on_main t body s = Inr (True, s') \<and> appended FO_MAIN (frame_of (print_X (unat t) @ FS # body)) s s'"
    if "ch_cur (chan s FO_MAIN) + length (frame_format t body) < 4095"
    using frame_appended [OF inv_chan_ok [OF assms(1-3)] refl, of t body] that len by (auto simp: IO_BUF_SIZE_def)
  moreover have "commission_frame_on_main t body s = Inl Assert_Failed" if "ch_cur (chan s FO_MAIN) = 4096"
    using that by (simp add: commission_frame_on_main_def free_space_def IO_BUF_SIZE_def Let_def)
  ultimately show ?thesis using frame_refused [OF assms(1), of t body] le by auto
qed

end
