(* ===== verification/Daemon_Props.thy ===== *)
theory Daemon_Props
  imports Daemon_Facts Daemon_Inv
begin

text \<open>
  The properties of the daemon \<open>frob.c\<close> as a whole, on the states its start leaves and its loop reaches.
\<close>

section \<open>A daemon to look at\<close>

definition sample_su :: surroundings where
  "sample_su = \<lparr>su_argv = [lit ''frob''], su_env = (\<lambda>_. None), su_d5 = Some (d5_file, []), su_open = - 1,
     su_read0 = (\<lambda>_. 0), su_write0 = (\<lambda>_. 0), su_sigprocmask = 0, su_signalfd = 3, su_timers_ok = True,
     su_getrlimit = Some (1024, 4096), su_setrlimit_ok = True\<rparr>"

definition sample_state :: frob_state where
  "sample_state =
     (let s = set_fd II_SIGNAL 3 (set_fd FI_MAIN 0 (set_fd FO_MAIN 1 (initial_state sample_su shipped_d5)))
      in s\<lparr>fb_maxfd := get_max_fd (fs_ch (fb_fs s))\<rparr>)"



lemma sample_chan:
  "chan sample_state c =
     (if c = II_SIGNAL then closed_channel\<lparr>ch_fd := 3\<rparr> else if c = FI_MAIN then closed_channel\<lparr>ch_fd := 0\<rparr>
      else if c = FO_MAIN then closed_channel\<lparr>ch_fd := 1\<rparr> else closed_channel)"
  by (cases c) (simp_all add: sample_state_def Let_def set_fd_def initial_state_def)

lemma sample_fields:
  "fc_config (fb_cfg sample_state) = shipped_config" "fc_fallback_s2 (fb_cfg sample_state) = fallback_s2"
  "fb_token sample_state = 0" "fs_wset (fb_fs sample_state) = {}"
  by (simp_all add: sample_state_def Let_def set_fd_def initial_state_def shipped_config_def)

lemma sample_main_ok: "chan_ok (chan sample_state FO_MAIN)" "ch_cur (chan sample_state FO_MAIN) = 0"
  by (simp_all add: sample_chan closed_channel_def chan_ok_def FD_SETSIZE_def)

text \<open>The daemon with bytes waiting in its input buffer.\<close>

definition with_input :: "byte list \<Rightarrow> frob_state" where
  "with_input w = set_chan FI_MAIN (closed_channel\<lparr>ch_fd := 0, ch_buf := w @ zeros (IO_BUF_SIZE - length w), ch_cur := length w\<rparr>) sample_state"

text \<open>A kernel that grants every lock and has nothing to report.\<close>

definition quiet_kernel :: kernel where
  "quiet_kernel = \<lparr>k_repr = (\<lambda>m. [1]), k_unrepr = (\<lambda>_. blank_msg 0), k_msg_size = 1, k_siginfo = (\<lambda>_. Sig_Other),
     k_lock = (\<lambda>_. Locked), k_unlock_ok = True, k_tty = (- 1, - 1), k_select = (0, {}, {}, {}), k_write = (\<lambda>_ n. int n),
     k_read = (\<lambda>_ _. Read_Failed)\<rparr>"

section \<open>Messages\<close>

text \<open>
  C2. The daemon works off its input buffer: when the input channel holds any number of well-formed messages of
  the kinds the daemon deals with on the spot, back to back, and fewer than 4096 bytes of them, and the output
  buffer has room for all that they call for, one call of \<open>process_main\<close> acknowledges each of them, in order,
  answers each T1, D4 and B1 with the T2, D5 and B2 that carries its token (a T2 and a T5 get the acknowledgement only), puts all of it
  behind what was already waiting to be written, counts them as good and empties the input buffer.
  Requests that are forwarded are not among them: payments are the subject of \<open>payment_routed\<close>.
\<close>

theorem process_main_answers:
  assumes "chan_ok (chan s FO_MAIN)" "fc_config (fb_cfg s) = cfg" "cfg_ok cfg"
    and "list_all (\<lambda>m. msg_ok m \<and> frob_reply cfg m \<noteq> None) ms"
    and "ch_cur (chan s FO_MAIN) + total_need cfg ms < IO_BUF_SIZE"
    and "length (ch_buf (chan s FI_MAIN)) = IO_BUF_SIZE" "ch_cur (chan s FI_MAIN) < IO_BUF_SIZE"
    and "take (ch_cur (chan s FI_MAIN)) (ch_buf (chan s FI_MAIN)) = concat (map wire_text ms)"
  shows "\<exists>s' f'. process_main k s loop_fsm = Inr (s', f') \<and> ch_cur (chan s' FI_MAIN) = 0
    \<and> ch_cur (chan s' FO_MAIN) = ch_cur (chan s FO_MAIN) + length (replies cfg ms)
    \<and> take (ch_cur (chan s' FO_MAIN)) (ch_buf (chan s' FO_MAIN)) =
        take (ch_cur (chan s FO_MAIN)) (ch_buf (chan s FO_MAIN)) @ replies cfg ms
    \<and> received_good (fb_stats s') = received_good (fb_stats s) + of_nat (length ms)"
  by (rule process_main_messages [OF assms])

lemma ping_fits: "length (wire_text (ping_msg t)) \<le> 17"
proof -
  have "sum_list (map op_bound (msg_ops (ping_msg t))) \<le> 1"
    by (simp add: ping_msg_def msg_ops_def body_ops_def frob_enum)
  then show ?thesis using wire_bound(2) [of "ping_msg t"] by simp
qed

theorem process_main_answers_witness:
  "\<exists>s' f'. process_main quiet_kernel (with_input (wire_text (ping_msg 1) @ wire_text (ping_msg 2))) loop_fsm = Inr (s', f')
     \<and> received_good (fb_stats s') = received_good (fb_stats sample_state) + 2"
proof -
  let ?w = "wire_text (ping_msg 1) @ wire_text (ping_msg 2)"
  let ?s = "with_input ?w"
  have reply: "frob_reply shipped_config (ping_msg t) = Some (Some (answer (ping_msg t) (T2 (cfg_info shipped_config))))" for t
    by (simp add: frob_reply_def ping_msg_def)
  have "wire_need (answer (ping_msg t) (T2 (cfg_info shipped_config))) \<le> 1024" for t
    by (rule answers_fit(1) [OF shipped_config_ok, of T1]) (simp add: answer_body_def)
  then have need: "reply_need shipped_config (ping_msg t) \<le> 1024" for t by (simp add: reply_need_def reply)
  have len: "length ?w \<le> 34" using ping_fits [of 1] ping_fits [of 2] by simp
  have main: "chan ?s FO_MAIN = chan sample_state FO_MAIN" "fb_cfg ?s = fb_cfg sample_state" "fb_stats ?s = fb_stats sample_state"
    by (simp_all add: with_input_def)
  have inp: "chan ?s FI_MAIN = closed_channel\<lparr>ch_fd := 0, ch_buf := ?w @ zeros (IO_BUF_SIZE - length ?w), ch_cur := length ?w\<rparr>"
    by (simp add: with_input_def)
  have "total_need shipped_config [ping_msg 1, ping_msg 2] \<le> 2050"
    using need [of 1] need [of 2] by (simp add: total_need_def)
  then have room: "ch_cur (chan ?s FO_MAIN) + total_need shipped_config [ping_msg 1, ping_msg 2] < IO_BUF_SIZE"
    using sample_main_ok(2) main(1) by (simp add: IO_BUF_SIZE_def)
  have "\<exists>s' f'. process_main quiet_kernel ?s loop_fsm = Inr (s', f')
      \<and> received_good (fb_stats s') = received_good (fb_stats ?s) + of_nat (length [ping_msg 1, ping_msg 2])"
    using process_main_answers [OF _ _ shipped_config_ok _ room, of quiet_kernel]
      sample_main_ok(1) sample_fields(1) main(1,2) len reply ping_msg_ok [of 1] ping_msg_ok [of 2]
    unfolding inp by (fastforce simp: IO_BUF_SIZE_def)
  then show ?thesis using main(3) by simp
qed

section \<open>Payments\<close>

text \<open>
  C13. What becomes of a payment or a cancellation: forwarded as it is to the channel of its kind when that can
  be locked; answered at once, with error 993 and the token of the request, in a frame the peer can
  parse, when the channel is busy; and the end of the process when locking fails otherwise.
\<close>

theorem payment_routed:
  assumes "hdr_type (msg_header m) = FROB_S1" "msg_body m = S1 b" "msg_magic m = FROB_MAGIC" "unat (hdr_token (msg_header m)) < 2 ^ 24"
    and "chan_ok (chan s (payment_channel b))" "repr m \<noteq> []" "ch_cur (chan s (payment_channel b)) + length (repr m) < IO_BUF_SIZE - 1"
    and "chan_ok (chan s FO_MAIN)" "ch_cur (chan s FO_MAIN) + 64 < IO_BUF_SIZE - 1" "fc_fallback_s2 (fb_cfg s) = fallback_s2"
  shows "case lock (ch_fd (chan s (payment_channel b))) of
      Locked \<Rightarrow> \<exists>s'. commission_response repr lock m s = Inr (True, s') \<and> appended (payment_channel b) (repr m) s s'
    | Lock_Busy \<Rightarrow> \<exists>s' p. commission_response repr lock m s = Inr (True, s') \<and> appended FO_MAIN (frame_of p) s s'
        \<and> parse_message p (blank_msg 0) = Inr (0, \<lparr>msg_magic = FROB_MAGIC,
            msg_header = \<lparr>hdr_type = FROB_S2, hdr_token = hdr_token (msg_header m)\<rparr>, msg_body = S2 fallback_msg, msg_attr = zero_attr\<rparr>)
    | Lock_Failed \<Rightarrow> commission_response repr lock m s = Inl Aborted"
proof (cases "lock (ch_fd (chan s (payment_channel b)))")
  case Locked
  then show ?thesis
    using payment_forwarded [where lock = lock and s = s and repr = repr, OF assms(1,2)] native_appended [where repr = repr, OF assms(5,3,6,7)]
    by auto
next
  case Lock_Busy
  then show ?thesis
    using payment_busy_reply [where lock = lock and s = s and repr = repr, OF assms(1,2) _ assms(4,10,8,9)]
      fallback_parses [OF assms(4)] by auto
next
  case Lock_Failed
  then show ?thesis
    using payment_destination [OF assms(1,2)] by (simp add: commission_response_def choose_destination_def)
qed

theorem payment_routed_witness:
  "\<exists>s'. commission_response (\<lambda>_. [1, 2, 3]) (\<lambda>_. Locked) payment_msg (set_fd NO_PAYMENT 5 sample_state) = Inr (True, s')
     \<and> appended NO_PAYMENT [1, 2, 3] (set_fd NO_PAYMENT 5 sample_state) s'"
proof -
  let ?s = "set_fd NO_PAYMENT 5 sample_state"
  have pc: "payment_channel sample_s1 = NO_PAYMENT" by (simp add: payment_channel_def sample_s1_def)
  have chans: "chan ?s NO_PAYMENT = closed_channel\<lparr>ch_fd := 5\<rparr>" "chan ?s FO_MAIN = chan sample_state FO_MAIN"
    "fb_cfg ?s = fb_cfg sample_state"
    by (simp_all add: set_fd_def sample_chan)
  show ?thesis
    using payment_routed [of payment_msg sample_s1 ?s "\<lambda>_. [1, 2, 3]" "\<lambda>_. Locked"] sample_main_ok sample_fields(2)
    by (simp add: pc chans payment_msg_def closed_channel_def chan_ok_def FD_SETSIZE_def IO_BUF_SIZE_def)
qed

section \<open>Pings\<close>

text \<open>
  C28. A ping goes out as a T1 with the token after the last one, wrapped at 10000 or 20000 depending on the
  device, in a frame that parses to exactly that message; both the acknowledgement and the answer are
  then awaited.
\<close>

theorem ping_sent:
  assumes "chan_ok (chan s FO_MAIN)" "ch_cur (chan s FO_MAIN) + 16 < IO_BUF_SIZE - 1"
    and "t = (fb_token s + 1) mod (if device_topo (cfg_parameters (fc_config (fb_cfg s))) = DEVICE_TYPE_ECR then 10000 else 20000)"
  shows "\<exists>s' p. commission_ping_on_main s = Inr (1, s') \<and> appended FO_MAIN (frame_of p) s s' \<and> fb_ping s' \<and> fb_ack s'
    \<and> parse_message p (blank_msg 0) = Inr (0, ping_msg t)"
proof -
  have tok: "compute_next_token (device_topo (cfg_parameters (fc_config (fb_cfg s)))) s = (t, s\<lparr>fb_token := t\<rparr>)"
    using assms(3) by (simp add: compute_next_token_def Let_def)
  show ?thesis
    using ping_queued [OF assms(1,2) tok] ping_parses [OF next_token_header [OF tok]] unfolding ping_msg_def by blast
qed

theorem ping_sent_witness:
  "\<exists>s' p. commission_ping_on_main sample_state = Inr (1, s') \<and> appended FO_MAIN (frame_of p) sample_state s'
     \<and> parse_message p (blank_msg 0) = Inr (0, ping_msg 1)"
proof -
  have "(1 :: 32 word) = (fb_token sample_state + 1) mod
      (if device_topo (cfg_parameters (fc_config (fb_cfg sample_state))) = DEVICE_TYPE_ECR then 10000 else 20000)"
    by (simp add: sample_fields shipped_config_def builtin_config_def shipped_d5_def)
  from ping_sent [OF sample_main_ok(1) _ this] sample_main_ok(2) show ?thesis by (auto simp: IO_BUF_SIZE_def)
qed

section \<open>Acknowledgements that do not come\<close>

text \<open>
  C22. When something that wants an acknowledgement has been written and none comes within three seconds, the
  timer marks the main channel for writing again; but the write has emptied the buffer, so that
  instead of the frame being sent once more the assertion of \<open>perform_pending_write\<close> ends the
  process.
\<close>

theorem missing_ack_aborts:
  assumes "fb_ack s" "\<not> fb_ping s" "fb_timer_ack s = 0" "0 < ch_cur (chan s FO_MAIN)" "ch_cur (chan s FO_MAIN) < IO_BUF_SIZE"
    and "k_write k FO_MAIN (ch_cur (chan s FO_MAIN)) = int (ch_cur (chan s FO_MAIN))" "fs_eset (fb_fs s) = {}"
    and "0 \<le> ch_fd (chan s FO_MAIN)" "ch_fd (chan s FO_MAIN) < FD_SETSIZE"
  shows "\<exists>s1 s2. perform_pending_write k FO_MAIN s = Inr s1 \<and> fb_timer_ack s1 = 3
    \<and> handle_signal k' (Sig_Alrm True Timer_Ack) s1 = Inr s2 \<and> perform_pending_on k'' FO_MAIN s2 = Inl Assert_Failed"
proof -
  let ?s1 = "set_chan FO_MAIN ((chan s FO_MAIN)\<lparr>ch_cur := 0\<rparr>) (s\<lparr>fb_timer_ack := 3\<rparr>)"
  have w: "perform_pending_write k FO_MAIN s = Inr ?s1" by (rule first_write [OF assms(1-6)])
  moreover obtain s2 where s2: "handle_signal k (Sig_Alrm True Timer_Ack) ?s1 = Inr s2"
    using assms(8,9) by (auto simp: handle_signal_def set_wset_def FD_SET_def)
  moreover have "perform_pending_on k'' FO_MAIN s2 = Inl Assert_Failed"
    by (rule retransmission_aborts [OF w _ s2]) (use assms(7,8) in simp_all)
  moreover have "handle_signal k' (Sig_Alrm True Timer_Ack) ?s1 = handle_signal k (Sig_Alrm True Timer_Ack) ?s1"
    by (simp add: handle_signal_def)
  ultimately show ?thesis by auto
qed

definition wrote_one :: frob_state where
  "wrote_one = (set_chan FO_MAIN (closed_channel\<lparr>ch_fd := 1, ch_cur := 20\<rparr>) sample_state)\<lparr>fb_ack := True\<rparr>"

lemma wrote_one_fields:
  "chan wrote_one FO_MAIN = closed_channel\<lparr>ch_fd := 1, ch_cur := 20\<rparr>" "fb_ack wrote_one" "\<not> fb_ping wrote_one"
  "fb_timer_ack wrote_one = 0" "fs_eset (fb_fs wrote_one) = {}"
  by (simp_all add: wrote_one_def sample_state_def Let_def set_fd_def initial_state_def)

theorem missing_ack_witness:
  "\<exists>s1 s2. perform_pending_write quiet_kernel FO_MAIN wrote_one = Inr s1
     \<and> handle_signal quiet_kernel (Sig_Alrm True Timer_Ack) s1 = Inr s2
     \<and> perform_pending_on quiet_kernel FO_MAIN s2 = Inl Assert_Failed"
  using missing_ack_aborts [of wrote_one quiet_kernel quiet_kernel quiet_kernel] wrote_one_fields
  by (auto simp: IO_BUF_SIZE_def FD_SETSIZE_def quiet_kernel_def)

text \<open>
  C23. Once something that wants an acknowledgement has been written, nothing can be written on the main
  channel until it came. The write empties the buffer and leaves the timer of three seconds running; whatever is
  queued next, here the acknowledgement of a message of the peer, aborts the daemon when it is written,
  because the running timer is armed again, which the assertion of \<open>alarm_set\<close> forbids. Had the
  acknowledgement been read in between, the same write would have gone through.
\<close>

theorem second_write_fails:
  assumes "fb_ack s" "\<not> fb_ping s" "fb_timer_ack s = 0" "chan_ok (chan s FO_MAIN)" "0 < ch_cur (chan s FO_MAIN)"
    "ch_cur (chan s FO_MAIN) < IO_BUF_SIZE" and writes: "\<And>n. k_write k FO_MAIN n = int n"
  shows "\<exists>s1 s2. perform_pending_write k FO_MAIN s = Inr s1 \<and> fb_timer_ack s1 = 3 \<and> ch_cur (chan s1 FO_MAIN) = 0
    \<and> commission_ack_on_main nak s1 = Inr s2 \<and> perform_pending_write k FO_MAIN s2 = Inl Assert_Failed
    \<and> (\<exists>s3 s4. note_ack ACK s1 = Inr s3 \<and> commission_ack_on_main nak s3 = Inr s4
         \<and> perform_pending_write k FO_MAIN s4 = Inr (set_chan FO_MAIN ((chan s4 FO_MAIN)\<lparr>ch_cur := 0\<rparr>) s4))"
proof -
  let ?s1 = "set_chan FO_MAIN ((chan s FO_MAIN)\<lparr>ch_cur := 0\<rparr>) (s\<lparr>fb_timer_ack := 3\<rparr>)"
  have first: "perform_pending_write k FO_MAIN s = Inr ?s1" by (rule first_write [OF assms(1-3,5,6) writes])
  obtain s3 where s3: "note_ack ACK ?s1 = Inr s3" "\<not> fb_ack s3" "\<not> fb_ping s3" "chan s3 FO_MAIN = (chan s FO_MAIN)\<lparr>ch_cur := 0\<rparr>"
    using assms(1,2) by (simp add: note_ack_def alarm_set_def)
  have ok: "chan_ok (chan ?s1 FO_MAIN)" "chan_ok (chan s3 FO_MAIN)" using assms(4) s3(4) by (simp_all add: chan_ok_def)
  obtain s2 where s2: "commission_ack_on_main nak ?s1 = Inr s2" "fb_ack s2" "fb_timer_ack s2 = 3" "ch_cur (chan s2 FO_MAIN) = 1"
    using ack_queued [OF ok(1)] assms(1) by (auto simp: IO_BUF_SIZE_def)
  obtain s4 where s4: "commission_ack_on_main nak s3 = Inr s4" "\<not> fb_ack s4" "\<not> fb_ping s4" "ch_cur (chan s4 FO_MAIN) = 1"
    using ack_queued [OF ok(2)] s3 by (auto simp: IO_BUF_SIZE_def)
  have "perform_pending_write k FO_MAIN s2 = Inl Assert_Failed"
    by (rule second_write_aborts) (use s2 writes in \<open>simp_all add: IO_BUF_SIZE_def\<close>)
  moreover have "perform_pending_write k FO_MAIN s4 = Inr (set_chan FO_MAIN ((chan s4 FO_MAIN)\<lparr>ch_cur := 0\<rparr>) s4)"
    by (rule free_write) (use s4 writes in \<open>simp_all add: IO_BUF_SIZE_def\<close>)
  ultimately show ?thesis using first s2(1) s3(1) s4(1) by (intro exI [of _ ?s1] exI [of _ s2]) auto
qed

theorem second_write_witness:
  "\<exists>s1 s2. perform_pending_write quiet_kernel FO_MAIN wrote_one = Inr s1 \<and> commission_ack_on_main False s1 = Inr s2
     \<and> perform_pending_write quiet_kernel FO_MAIN s2 = Inl Assert_Failed"
  using second_write_fails [of wrote_one quiet_kernel False] wrote_one_fields
  by (auto simp: IO_BUF_SIZE_def FD_SETSIZE_def quiet_kernel_def chan_ok_def closed_channel_def)

section \<open>The loop\<close>




end
