(* ===== verification/Spec2Isabelle.thy ===== *)
theory Spec2Isabelle
  imports Parser_Facts Divergence Utils_Facts Pipeline Suspendables Scheduler Startup_Facts Daemon_Props
begin

text \<open>
  Verification library of frobd, which speaks a protocol between electronic cash registers and payment
  terminals over file descriptors.

  The repository holds two programs that share their parser and serialiser. The Makefile builds the
  multitasking one (\<open>main.c\<close>): cooperative tasks that lend each other messages at numbered slots. The
  other, \<open>frob.c\<close>, is an event loop around \<open>select\<close>. A message travels as STX, data, ETX and a checksum;
  the data is a token, a type and the fields of the body, each ended by a separator.

  \<^bold>\<open>Shared parts.\<close>
  \<^item> \<open>Prelude\<close>: bytes, the ways a C run goes wrong (\<open>fault\<close>) and the outcome of a function that can, stores
    into memory, null-padded arrays. \<open>Numerals\<close>: positional numbers, printed and read.
  \<^item> \<open>Frob_Types\<close> (\<open>frob.h\<close>): message types as 32-bit words, enumerations as datatypes, structures as records,
    the union of bodies as a datatype.
  \<^item> \<open>Utils\<close> (\<open>utils.c\<close>, \<open>utils.h\<close>): checksum, names of types, hexadecimal, \<open>COPY\<close>, trimming, whole files, \<open>snprintf\<close>.
    \<open>Logging\<close> (\<open>log.c\<close>, \<open>log.h\<close>): \<open>to_printable\<close> and the log macros.
  \<^item> \<open>Frame\<close>, \<open>Header\<close>, \<open>Ragel_Fields\<close>, \<open>Body\<close>, \<open>Parser\<close> (\<open>fsm/frame.rl\<close>, \<open>fsm/header.rl\<close>, \<open>fsm/body.rl\<close>,
    \<open>fsm/common.rl\<close>, \<open>fsm/attrs.rl\<close>, \<open>utils.c: parse_message\<close>): each state machine with its actions, a body
    machine as a list of fields. \<open>Parser_Facts\<close>: what they accept, what they store, where they can fail.
  \<^item> \<open>Serialization\<close> (\<open>serialization.c\<close>), \<open>Serial_Facts\<close>, \<open>Roundtrip\<close>, \<open>Messages\<close>, \<open>Message_Props\<close>: the copy
    operations with memory, cursor and free space; well-formed messages; the round trip. \<open>Divergence\<close>: the
    messages for which there is none.

  \<^bold>\<open>The multitasking program.\<close>
  \<^item> \<open>Context_Ring\<close> (\<open>multitasking/contextring.c\<close>): a doubly linked ring on an explicit heap; the locale
    \<open>round_robin\<close> is what a scheduler needs of it. \<open>Eventloop\<close> (\<open>multitasking/eventloop.c\<close>): how long to wait.
    \<open>Suspendables\<close> (\<open>multitasking/suspendables.c\<close>): slots (the locale \<open>handover\<close>), descriptors, the I/O loop.
    \<open>Scheduler\<close>: \<open>sus_runall\<close>. The I/O loop among the other tasks is a relation of its own, \<open>loop_rounds\<close>.
  \<^item> \<open>Wireprotocol\<close>, \<open>Frontend\<close>, \<open>Autoresponder\<close> (\<open>fsm/wireprotocol.rl\<close>, \<open>fsm/frontend.rl\<close>, \<open>autoresponder.c\<close>):
    the three tasks a message passes; \<open>Pipeline\<close>: the three together.
  \<^item> \<open>Startup\<close>, \<open>Startup_Facts\<close> (\<open>main.c\<close>, \<open>ucspi.c\<close>, \<open>sighandler.c\<close>, \<open>controller.c\<close>, \<open>s6notify.c\<close>): environment,
    limits, table of tasks, \<open>main\<close> before and after \<open>sus_runall\<close>.

  \<^bold>\<open>The daemon\<close> \<open>frob.c\<close>.
  \<^item> \<open>Channels\<close>: its state, destinations, tokens and timers. \<open>Commission\<close>: everything that queues output.
    \<open>Daemon\<close>: frames on the main channel. \<open>Event_Loop\<close>: signals, console, device, pending input and output,
    the loop. \<open>Daemon_Start\<close>: \<open>initialize\<close> and \<open>main\<close>.
  \<^item> \<open>Daemon_Facts\<close>: a buffer full of messages, payments, pings, acknowledgements. \<open>Daemon_Inv\<close>: the turn of the
    loop as a step relation, the reachable states and their invariant. \<open>Daemon_Props\<close>: the properties.

  \<^bold>\<open>How the state is modelled.\<close> A buffer is the list of its bytes and a pointer into it an offset, so that an
  access outside of an object is the value \<open>Inl Out_Of_Bounds_Write\<close> or \<open>Inl Out_Of_Bounds_Read\<close>; a failed
  assertion, an exit and an abort are values as well. What the kernel answers (\<open>select\<close>, \<open>read\<close>, \<open>write\<close>,
  locks, signals, files, environment) is an argument. Machine integers that are masked, shifted or
  can wrap are words; sizes and descriptors are unbounded, except that the free space of the
  serialiser is a \<open>size_t\<close> that wraps. \<open>COPY(A[i++], c, fpc)\<close> evaluates \<open>i++\<close> once for \<open>memcpy\<close> and once or
  twice in \<open>min\<close> and \<open>elementsof\<close>; which value \<open>memcpy\<close> sees is the compiler's choice, \<open>argument_order\<close>, which is
  that of gcc. The array that the log line of a rejected message declares is modelled, since for an
  empty message it fails an assertion.

  \<^bold>\<open>Loops.\<close> The state machines recurse on their input. The loop over frames, the retries of \<open>rread\<close> and
  trimming have measures. \<open>sched_loop\<close> need not end: its value is an option, and that it ends under a
  measure on the tasks is a theorem. \<open>event_loop\<close> and the tasks run over the list of inputs they are
  given; no fuel is used.

  \<^bold>\<open>What the properties show.\<close> The protocol works as meant where they say so: round trip, grammars, error
  detection, the bounds of the serialiser, the destination of a message, the answers of both programs, the
  ring, the slots, the deadline, what queueing does in every state of the daemon. Others pin down behaviour that is not what the code means to do: only the first message is
  answered by the multitasking program, its I/O loop stops after a hundred waits, the task after one that
  ends misses its turn, frames split over reads are damaged or lost, S2 and T4 do not survive, a few
  attributes or versions are enough to store behind their array, and a missing acknowledgement, as well as
  a second write before one, ends the daemon.

  \<^bold>\<open>Not modelled.\<close> The coroutine library (\<open>multitasking/coro\<close>) is a submodule that is not in the tree; what
  a task does between two suspensions is a parameter of \<open>sus_runall\<close>, and the eight tasks of \<open>main\<close>, each
  modelled for itself, are not composed into one run of it. The memory layout of \<open>struct
  frob_msg\<close>, copied to native channels, is a parameter. \<open>fsm/b1-b4.rl\<close>, \<open>fsm/first_level.rl\<close> and
  \<open>fsm/protocol.rl\<close> are compiled into neither program. \<open>print_ioparams\<close>, \<open>fsiginfo\<close> and most log lines
  only format text. \<open>crypto_tpm12.c\<close> is empty; \<open>ut.t\<close>, \<open>multitasking/ut.c.t\<close> and \<open>testsuite\<close> are tests.
\<close>

end
